theory Spec2Isabelle
  imports Complex_Main "HOL-Library.Sublist"
begin

section \<open>Python strings\<close>

text \<open>
  A Python \<open>str\<close> is a sequence of Unicode code points, and \<open>len\<close> counts code points.
  A string is therefore a list of code points, each a natural number; \<open>u\<close> embeds a
  literal of the source.
\<close>

type_synonym pystr = "nat list"

definition u :: "string \<Rightarrow> pystr" where
  "u s = map of_char s"

text \<open>
  The code points for which \<open>str.isspace\<close> holds; \<open>str.split()\<close> and \<open>str.strip()\<close>
  without arguments use the same set.
\<close>

definition isspace :: "nat \<Rightarrow> bool" where
  "isspace c \<longleftrightarrow>
     (9 \<le> c \<and> c \<le> 13) \<or> (28 \<le> c \<and> c \<le> 32) \<or> c = 133 \<or> c = 160 \<or> c = 5760 \<or>
     (8192 \<le> c \<and> c \<le> 8202) \<or> c = 8232 \<or> c = 8233 \<or> c = 8239 \<or> c = 8287 \<or> c = 12288"

text \<open>
  \<open>text.split()\<close>: the maximal runs of non-whitespace code points, in order. The first
  argument is the word read so far.
\<close>

fun split_from :: "pystr \<Rightarrow> pystr \<Rightarrow> pystr list" where
  "split_from w [] = (if w = [] then [] else [w])"
| "split_from w (c # cs) =
     (if isspace c then (if w = [] then split_from [] cs else w # split_from [] cs)
      else split_from (w @ [c]) cs)"

definition str_split :: "pystr \<Rightarrow> pystr list" where
  "str_split s = split_from [] s"

text \<open>\<open>sep.join(parts)\<close>.\<close>

fun str_join :: "pystr \<Rightarrow> pystr list \<Rightarrow> pystr" where
  "str_join sep [] = []"
| "str_join sep [p] = p"
| "str_join sep (p # q # ps) = p @ sep @ str_join sep (q # ps)"

text \<open>\<open>s.strip()\<close>: whitespace removed at both ends.\<close>

definition strip :: "pystr \<Rightarrow> pystr" where
  "strip s = rev (dropWhile isspace (rev (dropWhile isspace s)))"

subsection \<open>utils.sanitize_text\<close>

definition sanitize_text :: "pystr \<Rightarrow> pystr" where
  "sanitize_text text =
     (if text = [] then []
      else strip (filter (\<lambda>c. c \<noteq> 0) (str_join (u '' '') (str_split text))))"

text \<open>
  A word as \<open>split\<close> produces it: not empty, and free of whitespace.
\<close>

definition word_ok :: "pystr \<Rightarrow> bool" where
  "word_ok w \<longleftrightarrow> w \<noteq> [] \<and> (\<forall>c\<in>set w. \<not> isspace c)"

section \<open>Python values\<close>

text \<open>
  The values that \<open>json.load\<close> and \<open>response.json()\<close> produce, which the code then
  handles untyped: \<open>None\<close>, \<open>bool\<close>, \<open>int\<close>, \<open>str\<close>, \<open>list\<close> and \<open>dict\<close>. A \<open>dict\<close>
  is the list of its items in insertion order, with distinct keys. Numbers are the
  integers; fractional JSON numbers are outside the model.
\<close>

datatype json =
    JNull
  | JBool bool
  | JInt int
  | JStr pystr
  | JArr "json list"
  | JObj "(pystr \<times> json) list"

text \<open>\<open>d[k] = v\<close> on a \<open>dict\<close>: an existing key keeps its place, a new key goes last.\<close>

fun dict_set :: "('k \<times> 'v) list \<Rightarrow> 'k \<Rightarrow> 'v \<Rightarrow> ('k \<times> 'v) list" where
  "dict_set [] k v = [(k, v)]"
| "dict_set ((k', v') # kvs) k v =
     (if k' = k then (k, v) # kvs else (k', v') # dict_set kvs k v)"

section \<open>ingest: extracted documents, scraped pages, the merged context\<close>

text \<open>The \<open>dict\<close> that \<open>extract_text_from_pdf\<close> and \<open>extract_text_from_txt\<close> return.\<close>

record extracted_document =
  doc_filename :: pystr
  doc_content :: pystr
  doc_metadata :: "(pystr \<times> json) list"
  doc_error :: "pystr option"

text \<open>The \<open>dict\<close> that \<open>scrape_website\<close> stores per target.\<close>

record scraped_info =
  page_url :: pystr
  page_content :: pystr
  selectors_found :: "pystr list"

text \<open>The result of \<open>load_local_data\<close>; the three counters are its \<open>summary\<close>.\<close>

record local_data =
  files_data :: "(pystr \<times> extracted_document) list"
  errors :: "pystr list"
  total_files :: nat
  summary_successful :: nat
  summary_failed :: nat

text \<open>The result of \<open>scrape_website\<close>.\<close>

record web_data =
  scraped_data :: "(pystr \<times> scraped_info) list"
  web_errors :: "pystr list"
  cached :: bool

subsection \<open>ingest.merge_data\<close>

definition local_header :: pystr where
  "local_header = u ''=== UNIVERSITY DATA FROM LOCAL FILES ===\<newline>''"

definition live_header :: pystr where
  "live_header = u ''\<newline>\<newline>=== LIVE DATA FROM UNIVERSITY WEBSITE ===\<newline>''"

text \<open>The two entries that the loop over \<open>files_data\<close> appends for one file.\<close>

definition file_parts :: "pystr \<times> extracted_document \<Rightarrow> pystr list" where
  "file_parts kv =
     [u ''\<newline>--- '' @ doc_filename (snd kv) @ u '' ---\<newline>'', doc_content (snd kv)]"

text \<open>The two entries that the loop over \<open>scraped_data\<close> appends for one page.\<close>

definition page_parts :: "pystr \<times> scraped_info \<Rightarrow> pystr list" where
  "page_parts kv =
     [u ''\<newline>--- From '' @ page_url (snd kv) @ u '' ---\<newline>'', page_content (snd kv)]"

definition merge_data :: "local_data \<Rightarrow> web_data \<Rightarrow> pystr" where
  "merge_data local web =
     (let context_parts = [local_header];
          context_parts =
            (if files_data local \<noteq> []
             then context_parts @ concat (map file_parts (files_data local))
             else context_parts);
          context_parts =
            (if scraped_data web \<noteq> []
             then context_parts @ [live_header] @ concat (map page_parts (scraped_data web))
             else context_parts)
      in str_join (u ''\<newline>'') context_parts)"

text \<open>
  The header line of the live-data section without the line breaks around it, and what
  \<open>merge_data\<close> reads of its two inputs: the file names and contents, the source
  addresses and contents, in iteration order.
\<close>

definition live_header_line :: pystr where
  "live_header_line = u ''=== LIVE DATA FROM UNIVERSITY WEBSITE ===''"

definition local_texts :: "local_data \<Rightarrow> (pystr \<times> pystr) list" where
  "local_texts local = map (\<lambda>kv. (doc_filename (snd kv), doc_content (snd kv))) (files_data local)"

definition web_texts :: "web_data \<Rightarrow> (pystr \<times> pystr) list" where
  "web_texts web = map (\<lambda>kv. (page_url (snd kv), page_content (snd kv))) (scraped_data web)"

subsection \<open>Example inputs for \<open>merge_data\<close>\<close>

text \<open>
  One local text file \<open>admissions.txt\<close>, no scraped page, and one scraped page.
\<close>

definition admissions_doc :: extracted_document where
  "admissions_doc =
     \<lparr>doc_filename = u ''admissions.txt'', doc_content = u ''Deadline: Jan 15. Fee: $75.'',
      doc_metadata = [(u ''encoding'', JStr (u ''utf-8''))], doc_error = None\<rparr>"

definition admissions_local :: local_data where
  "admissions_local =
     \<lparr>files_data = [(u ''admissions'', admissions_doc)], errors = [],
      total_files = 1, summary_successful = 1, summary_failed = 0\<rparr>"

definition no_web :: web_data where
  "no_web = \<lparr>scraped_data = [], web_errors = [], cached = False\<rparr>"

definition admissions_web :: web_data where
  "admissions_web =
     \<lparr>scraped_data =
        [(u ''/admissions'',
          \<lparr>page_url = u ''https://university-website.edu/admissions'',
           page_content = u ''Apply by Jan 15.'', selectors_found = [u ''main_content'']\<rparr>)],
      web_errors = [], cached = False\<rparr>"

text \<open>
  Two local text files, the first of which holds the line
  \<open>=== LIVE DATA FROM UNIVERSITY WEBSITE ===\<close> as its whole content.
\<close>

definition notice_local :: local_data where
  "notice_local =
     \<lparr>files_data =
        [(u ''notice'',
          \<lparr>doc_filename = u ''notice.txt'', doc_content = live_header_line,
           doc_metadata = [(u ''encoding'', JStr (u ''utf-8''))], doc_error = None\<rparr>),
         (u ''admissions'', admissions_doc)],
      errors = [], total_files = 2, summary_successful = 2, summary_failed = 0\<rparr>"

section \<open>Python operations on untyped values\<close>

text \<open>
  Exceptions, by the classes that the handlers of \<open>ScaledownCompressor.compress\<close> tell
  apart. \<open>HTTPError\<close> carries \<open>e.response.status_code\<close> and \<open>e.response.text\<close>, the others
  carry \<open>str(e)\<close>. \<open>RequestsJSONDecodeError\<close> is the exception of recent versions of the
  \<open>requests\<close> library, which is both a \<open>RequestException\<close> and a \<open>json.JSONDecodeError\<close>;
  \<open>OtherException\<close> is any other subclass of \<open>Exception\<close>.
\<close>

datatype pyexc =
    Timeout
  | HTTPError nat pystr
  | RequestException pystr
  | RequestsJSONDecodeError pystr
  | JSONDecodeError pystr
  | OtherException pystr

fun type_name :: "json \<Rightarrow> pystr" where
  "type_name JNull = u ''NoneType''"
| "type_name (JBool b) = u ''bool''"
| "type_name (JInt n) = u ''int''"
| "type_name (JStr s) = u ''str''"
| "type_name (JArr xs) = u ''list''"
| "type_name (JObj kvs) = u ''dict''"

text \<open>\<open>v.get(k, d)\<close>: defined on a \<open>dict\<close> only, an \<open>AttributeError\<close> on every other value.\<close>

fun dict_get :: "json \<Rightarrow> pystr \<Rightarrow> json \<Rightarrow> pyexc + json" where
  "dict_get (JObj kvs) k d = Inr (case map_of kvs k of None \<Rightarrow> d | Some v \<Rightarrow> v)"
| "dict_get v k d =
     Inl (OtherException ([39] @ type_name v @ [39] @ u '' object has no attribute '' @
                          [39] @ u ''get'' @ [39]))"

text \<open>\<open>v > 0\<close>: \<open>bool\<close> is a subclass of \<open>int\<close>; every other value raises a \<open>TypeError\<close>.\<close>

fun py_gt0 :: "json \<Rightarrow> pyexc + bool" where
  "py_gt0 (JInt n) = Inr (n > 0)"
| "py_gt0 (JBool b) = Inr b"
| "py_gt0 v =
     Inl (OtherException ([39, 62, 39] @ u '' not supported between instances of '' @
                          [39] @ type_name v @ [39] @ u '' and '' @ [39] @ u ''int'' @ [39]))"

text \<open>The truth value of \<open>v\<close> in a condition.\<close>

fun py_truthy :: "json \<Rightarrow> bool" where
  "py_truthy JNull = False"
| "py_truthy (JBool b) = b"
| "py_truthy (JInt n) = (n \<noteq> 0)"
| "py_truthy (JStr s) = (s \<noteq> [])"
| "py_truthy (JArr xs) = (xs \<noteq> [])"
| "py_truthy (JObj kvs) = (kvs \<noteq> [])"

text \<open>\<open>len(v)\<close>.\<close>

fun py_len :: "json \<Rightarrow> pyexc + nat" where
  "py_len (JStr s) = Inr (length s)"
| "py_len (JArr xs) = Inr (length xs)"
| "py_len (JObj kvs) = Inr (length kvs)"
| "py_len v =
     Inl (OtherException (u ''object of type '' @ [39] @ type_name v @ [39] @
                          u '' has no len()''))"

text \<open>
  A Python \<open>float\<close> is a binary64 number; the model holds a float as the rational number
  it stands for. \<open>int_truediv x y\<close> is \<open>x / y\<close> for integers with \<open>y\<close> not zero: the float
  nearest to the quotient, ties going to the even significand, with gradual underflow;
  there is no result where Python raises \<open>OverflowError\<close>, which is when the quotient
  would round to a magnitude of \<open>2 ^ 1024\<close>.
\<close>

fun bit_length :: "nat \<Rightarrow> nat" where
  "bit_length n = (if n = 0 then 0 else Suc (bit_length (n div 2)))"

declare bit_length.simps [simp del]

definition pow2 :: "int \<Rightarrow> rat" where
  "pow2 k = (if 0 \<le> k then 2 ^ nat k else 1 / 2 ^ nat (- k))"

text \<open>The largest \<open>d\<close> with \<open>2 ^ d \<le> a / b\<close>, for positive \<open>a\<close> and \<open>b\<close>.\<close>

definition floor_log2 :: "nat \<Rightarrow> nat \<Rightarrow> int" where
  "floor_log2 a b =
     (let d = int (bit_length a) - int (bit_length b)
      in if pow2 d * of_nat b \<le> of_nat a then d else d - 1)"

definition round_half_even :: "rat \<Rightarrow> int" where
  "round_half_even x =
     (let f = \<lfloor>x\<rfloor>; r = x - of_int f
      in if r < 1 / 2 then f else if 1 / 2 < r then f + 1 else if even f then f else f + 1)"

definition int_truediv :: "int \<Rightarrow> int \<Rightarrow> rat option" where
  "int_truediv x y =
     (let q = of_int x / of_int y in
      if q = 0 then Some 0
      else if 2 ^ 1024 - 2 ^ 970 \<le> \<bar>q\<bar> then None
      else
        (let e = max (floor_log2 (nat \<bar>x\<bar>) (nat \<bar>y\<bar>)) (- 1022);
             ulp = pow2 (e - 52)
         in Some (sgn q * of_int (round_half_even (\<bar>q\<bar> / ulp)) * ulp)))"

text \<open>The exception of a division whose result is beyond the floats.\<close>

definition OverflowError :: pyexc where
  "OverflowError = OtherException (u ''integer division result too large for a float'')"

text \<open>\<open>a / b\<close> and \<open>a - b\<close> on untyped values: defined on \<open>int\<close> and \<open>bool\<close>.\<close>

fun py_number :: "json \<Rightarrow> int option" where
  "py_number (JInt n) = Some n"
| "py_number (JBool b) = Some (if b then 1 else 0)"
| "py_number v = None"

definition py_truediv :: "json \<Rightarrow> json \<Rightarrow> pyexc + rat" where
  "py_truediv a b =
     (case (py_number a, py_number b) of
        (Some x, Some y) \<Rightarrow>
          if y = 0 then Inl (OtherException (u ''division by zero''))
          else (case int_truediv x y of
                  None \<Rightarrow> Inl OverflowError
                | Some q \<Rightarrow> Inr q)
      | _ \<Rightarrow>
          Inl (OtherException (u ''unsupported operand type(s) for /: '' @
                               [39] @ type_name a @ [39] @ u '' and '' @
                               [39] @ type_name b @ [39])))"

definition py_sub :: "json \<Rightarrow> json \<Rightarrow> pyexc + int" where
  "py_sub a b =
     (case (py_number a, py_number b) of
        (Some x, Some y) \<Rightarrow> Inr (x - y)
      | _ \<Rightarrow>
          Inl (OtherException (u ''unsupported operand type(s) for -: '' @
                               [39] @ type_name a @ [39] @ u '' and '' @
                               [39] @ type_name b @ [39])))"

text \<open>\<open>str(n)\<close> for a natural number: its decimal digits.\<close>

fun str_nat :: "nat \<Rightarrow> pystr" where
  "str_nat n = (if n < 10 then [48 + n] else str_nat (n div 10) @ [48 + n mod 10])"

declare str_nat.simps [simp del]

section \<open>scaledown: the compression client\<close>

text \<open>The settings that \<open>scaledown\<close> imports from \<open>config\<close>.\<close>

record scaledown_config =
  SCALEDOWN_API_URL :: pystr
  SCALEDOWN_API_KEY :: pystr
  SCALEDOWN_RATE :: pystr
  SCALEDOWN_MODEL :: pystr
  SCALEDOWN_TIMEOUT :: nat

text \<open>The attributes of a \<open>ScaledownCompressor\<close>, and its constructor.\<close>

record compressor =
  api_key :: pystr
  api_url :: pystr
  default_model :: pystr
  default_rate :: pystr
  timeout :: nat

text \<open>\<open>a or b\<close> on an optional string: \<open>None\<close> and the empty string are false.\<close>

fun str_or :: "pystr option \<Rightarrow> pystr \<Rightarrow> pystr" where
  "str_or None d = d"
| "str_or (Some s) d = (if s = [] then d else s)"

definition ScaledownCompressor ::
  "scaledown_config \<Rightarrow> pystr option \<Rightarrow> pystr option \<Rightarrow> compressor" where
  "ScaledownCompressor cfg key url =
     \<lparr>api_key = str_or key (SCALEDOWN_API_KEY cfg),
      api_url = str_or url (SCALEDOWN_API_URL cfg),
      default_model = SCALEDOWN_MODEL cfg,
      default_rate = SCALEDOWN_RATE cfg,
      timeout = SCALEDOWN_TIMEOUT cfg\<rparr>"

text \<open>
  The one request of \<open>compress\<close>, and the service as the code sees it: \<open>requests.post\<close>,
  \<open>raise_for_status\<close> and \<open>response.json()\<close> either raise, the first exception being the
  outcome, or yield the parsed body.
\<close>

record request =
  req_url :: pystr
  req_x_api_key :: pystr
  req_context :: pystr
  req_prompt :: pystr
  req_model :: pystr
  req_rate :: pystr
  req_timeout :: nat

datatype api_outcome = Raises pyexc | Body json

text \<open>The \<open>dict\<close> that \<open>compress\<close> returns; the fields read from the body are untyped.\<close>

record compression_result =
  compressed_prompt :: json
  original_tokens :: json
  compressed_tokens :: json
  compression_ratio :: rat
  successful :: json
  error :: "pystr option"
  latency_ms :: json

definition initial_result :: compression_result where
  "initial_result =
     \<lparr>compressed_prompt = JStr [], original_tokens = JInt 0, compressed_tokens = JInt 0,
      compression_ratio = 1, successful = JBool False, error = None, latency_ms = JInt 0\<rparr>"

text \<open>\<open>f"{context}\n\nUser Query: {prompt}"\<close>.\<close>

definition fallback_prompt :: "pystr \<Rightarrow> pystr \<Rightarrow> pystr" where
  "fallback_prompt context prompt = context @ u ''\<newline>\<newline>User Query: '' @ prompt"

text \<open>
  Lines 130 to 138 of \<open>compress\<close>, the compression ratio. A step returns the \<open>result\<close> as
  it stands and the exception raised, if any.
\<close>

definition ratio_step ::
  "pystr \<Rightarrow> pystr \<Rightarrow> compression_result \<Rightarrow> compression_result \<times> pyexc option" where
  "ratio_step context prompt result =
     (case py_gt0 (original_tokens result) of
        Inl e \<Rightarrow> (result, Some e)
      | Inr pos_original \<Rightarrow>
     (case (if pos_original then py_gt0 (compressed_tokens result) else Inr False) of
        Inl e \<Rightarrow> (result, Some e)
      | Inr both_positive \<Rightarrow>
          if both_positive then
            (case py_truediv (original_tokens result) (compressed_tokens result) of
               Inl e \<Rightarrow> (result, Some e)
             | Inr q \<Rightarrow> (result\<lparr>compression_ratio := q\<rparr>, None))
          else if py_truthy (compressed_prompt result) then
            (case py_len (compressed_prompt result) of
               Inl e \<Rightarrow> (result, Some e)
             | Inr compressed_length \<Rightarrow>
                 (let original_length = length context + length prompt in
                  if compressed_length > 0 then
                    (case int_truediv (int original_length) (int compressed_length) of
                       None \<Rightarrow> (result, Some OverflowError)
                     | Some q \<Rightarrow> (result\<lparr>compression_ratio := q\<rparr>, None))
                  else (result\<lparr>compression_ratio := 1\<rparr>, None)))
          else (result, None)))"

text \<open>
  \<open>utils.format_compression_stats\<close> on the \<open>result\<close> of \<open>compress\<close>. The text it returns goes
  to the log only, so the model keeps whether the call raises: with a positive original
  count it computes \<open>((original - compressed) / original) * 100\<close>, of which the
  subtraction and the division can raise; the multiplication of the float and the
  formatting cannot.
\<close>

definition format_compression_stats :: "compression_result \<Rightarrow> pyexc option" where
  "format_compression_stats stats =
     (case py_gt0 (original_tokens stats) of
        Inl e \<Rightarrow> Some e
      | Inr False \<Rightarrow> None
      | Inr True \<Rightarrow>
          (case py_sub (original_tokens stats) (compressed_tokens stats) of
             Inl e \<Rightarrow> Some e
           | Inr saved \<Rightarrow>
               (case py_truediv (JInt saved) (original_tokens stats) of
                  Inl e \<Rightarrow> Some e
                | Inr savings \<Rightarrow> None)))"

text \<open>
  The body of the \<open>try\<close> statement, lines 88 to 145, on the outcome of the request. The
  assignments to \<open>result\<close> that precede an exception stay in place. Of the logging, the
  call of \<open>format_compression_stats\<close> on line 141 is kept, since it can raise; the calls
  of the logger do not change \<open>result\<close> and do not raise.
\<close>

definition try_body ::
  "api_outcome \<Rightarrow> pystr \<Rightarrow> pystr \<Rightarrow> compression_result \<Rightarrow> compression_result \<times> pyexc option"
  where
  "try_body outcome context prompt result =
     (case outcome of
        Raises e \<Rightarrow> (result, Some e)
      | Body data \<Rightarrow>
     (case dict_get data (u ''results'') (JObj []) of
        Inl e \<Rightarrow> (result, Some e)
      | Inr results \<Rightarrow>
     (case dict_get results (u ''compressed_prompt'') (JStr []) of
        Inl e \<Rightarrow> (result, Some e)
      | Inr v1 \<Rightarrow>
     (case dict_get data (u ''total_original_tokens'') (JInt 0) of
        Inl e \<Rightarrow> (result\<lparr>compressed_prompt := v1\<rparr>, Some e)
      | Inr v2 \<Rightarrow>
     (case dict_get data (u ''total_compressed_tokens'') (JInt 0) of
        Inl e \<Rightarrow> (result\<lparr>compressed_prompt := v1, original_tokens := v2\<rparr>, Some e)
      | Inr v3 \<Rightarrow>
     (case dict_get data (u ''latency_ms'') (JInt 0) of
        Inl e \<Rightarrow>
          (result\<lparr>compressed_prompt := v1, original_tokens := v2, compressed_tokens := v3\<rparr>,
           Some e)
      | Inr v4 \<Rightarrow>
     (case dict_get data (u ''successful'') (JBool False) of
        Inl e \<Rightarrow>
          (result\<lparr>compressed_prompt := v1, original_tokens := v2, compressed_tokens := v3,
                  latency_ms := v4\<rparr>,
           Some e)
      | Inr v5 \<Rightarrow>
     (case ratio_step context prompt
             (result\<lparr>compressed_prompt := v1, original_tokens := v2, compressed_tokens := v3,
                     latency_ms := v4, successful := v5\<rparr>) of
        (result, Some e) \<Rightarrow> (result, Some e)
      | (result, None) \<Rightarrow> (result, format_compression_stats result)))))))))"

text \<open>The message that the handler of the exception's class writes to \<open>result['error']\<close>.\<close>

fun error_msg :: "compressor \<Rightarrow> pyexc \<Rightarrow> pystr" where
  "error_msg self Timeout = u ''Scaledown API timeout after '' @ str_nat (timeout self) @ u ''s''"
| "error_msg self (HTTPError status_code text) =
     u ''Scaledown API HTTP error: '' @ str_nat status_code @ u '' - '' @ text"
| "error_msg self (RequestException m) = u ''Scaledown API request failed: '' @ m"
| "error_msg self (RequestsJSONDecodeError m) = u ''Scaledown API request failed: '' @ m"
| "error_msg self (JSONDecodeError m) = u ''Failed to parse Scaledown API response: '' @ m"
| "error_msg self (OtherException m) = u ''Unexpected error in Scaledown compression: '' @ m"

subsection \<open>ScaledownCompressor.compress\<close>

text \<open>
  \<open>compress\<close> returns its result together with the requests it has sent. The service is a
  function from the request to the outcome.
\<close>

definition the_request ::
  "compressor \<Rightarrow> pystr \<Rightarrow> pystr \<Rightarrow> pystr option \<Rightarrow> pystr option \<Rightarrow> request" where
  "the_request self context prompt model rate =
     \<lparr>req_url = api_url self, req_x_api_key = api_key self,
      req_context = context, req_prompt = prompt,
      req_model = str_or model (default_model self),
      req_rate = str_or rate (default_rate self),
      req_timeout = timeout self\<rparr>"

definition compress ::
  "compressor \<Rightarrow> (request \<Rightarrow> api_outcome) \<Rightarrow> pystr \<Rightarrow> pystr \<Rightarrow> pystr option \<Rightarrow> pystr option
     \<Rightarrow> compression_result \<times> request list" where
  "compress self service context prompt model rate =
     (let result = initial_result in
      if api_key self = [] then
        (result\<lparr>compressed_prompt := JStr (fallback_prompt context prompt),
                error := Some (u ''API key not configured'')\<rparr>, [])
      else
        (let req = the_request self context prompt model rate in
         case try_body (service req) context prompt result of
           (result, None) \<Rightarrow> (result, [req])
         | (result, Some e) \<Rightarrow>
             (result\<lparr>error := Some (error_msg self e),
                     compressed_prompt := JStr (fallback_prompt context prompt)\<rparr>, [req])))"

subsection \<open>Example compressors and response bodies\<close>

text \<open>
  A configuration without a key for the compression service, a compressor that has one,
  and a body in which the service reports success while it sends \<open>null\<close> in place of the
  original token count.
\<close>

definition no_key_config :: scaledown_config where
  "no_key_config =
     \<lparr>SCALEDOWN_API_URL = u ''https://api.scaledown.xyz/compress/raw/'',
      SCALEDOWN_API_KEY = [], SCALEDOWN_RATE = u ''auto'',
      SCALEDOWN_MODEL = u ''gemini-2.5-flash'', SCALEDOWN_TIMEOUT = 15\<rparr>"

definition example_compressor :: compressor where
  "example_compressor =
     \<lparr>api_key = u ''sd-key'', api_url = u ''https://api.scaledown.xyz/compress/raw/'',
      default_model = u ''gemini-2.5-flash'', default_rate = u ''auto'', timeout = 15\<rparr>"

definition ill_typed_body :: json where
  "ill_typed_body =
     JObj [(u ''results'', JObj [(u ''compressed_prompt'', JStr (u ''x''))]),
           (u ''total_original_tokens'', JNull),
           (u ''successful'', JBool True)]"

text \<open>
  Bodies of the documented shape: with token counts, without a compressed count, with an
  original count of 309 digits, and with an empty \<open>results\<close> object.
\<close>

definition counted_body :: json where
  "counted_body =
     JObj [(u ''results'', JObj [(u ''compressed_prompt'', JStr (u ''Deadline Jan 15''))]),
           (u ''total_original_tokens'', JInt 1000),
           (u ''total_compressed_tokens'', JInt 250),
           (u ''latency_ms'', JInt 120),
           (u ''successful'', JBool True)]"

definition uncounted_body :: json where
  "uncounted_body =
     JObj [(u ''results'', JObj [(u ''compressed_prompt'', JStr (u ''Jan 15''))]),
           (u ''total_original_tokens'', JInt 1000),
           (u ''total_compressed_tokens'', JInt 0),
           (u ''successful'', JBool True)]"

definition huge_count :: int where
  "huge_count = 2 ^ 1024"

definition huge_body :: json where
  "huge_body =
     JObj [(u ''results'', JObj [(u ''compressed_prompt'', JStr (u ''Jan 15''))]),
           (u ''total_original_tokens'', JInt huge_count),
           (u ''total_compressed_tokens'', JInt 1),
           (u ''successful'', JBool True)]"

definition empty_body :: json where
  "empty_body = JObj [(u ''results'', JObj []), (u ''successful'', JBool False)]"

subsection \<open>The response shape of the specification\<close>

text \<open>
  A well-formed response is an object whose \<open>results\<close> member, if present, is an object
  with a string \<open>compressed_prompt\<close>, if present; whose token counts and latency, if
  present, are integers that are not negative; and whose \<open>successful\<close> member, if
  present, is a truth value.
\<close>

fun is_count :: "json \<Rightarrow> bool" where
  "is_count (JInt n) = (0 \<le> n)"
| "is_count v = False"

fun is_string :: "json \<Rightarrow> bool" where
  "is_string (JStr s) = True"
| "is_string v = False"

fun is_flag :: "json \<Rightarrow> bool" where
  "is_flag (JBool b) = True"
| "is_flag v = False"

fun absent_or :: "(json \<Rightarrow> bool) \<Rightarrow> json option \<Rightarrow> bool" where
  "absent_or P None = True"
| "absent_or P (Some v) = P v"

fun results_ok :: "json \<Rightarrow> bool" where
  "results_ok (JObj rs) = absent_or is_string (map_of rs (u ''compressed_prompt''))"
| "results_ok v = False"

fun well_formed_response :: "json \<Rightarrow> bool" where
  "well_formed_response (JObj kvs) =
     (absent_or results_ok (map_of kvs (u ''results'')) \<and>
      absent_or is_count (map_of kvs (u ''total_original_tokens'')) \<and>
      absent_or is_count (map_of kvs (u ''total_compressed_tokens'')) \<and>
      absent_or is_count (map_of kvs (u ''latency_ms'')) \<and>
      absent_or is_flag (map_of kvs (u ''successful'')))"
| "well_formed_response v = False"

section \<open>ingest: extraction and the local corpus\<close>

text \<open>
  A directory entry as the extractors see it: the parts of its path (\<open>Path.name\<close>,
  \<open>Path.stem\<close>, \<open>Path.suffix\<close>), whether it exists and is a regular file, and what reading
  it gives. Reading as text under an encoding yields the decoded text, fails with
  \<open>UnicodeDecodeError\<close>, or fails with another exception, of which \<open>str(e)\<close> is kept.
  Reading as PDF yields the text of each page (\<open>None\<close> for a page without text) or fails,
  before or after the page count has been stored.
\<close>

datatype encoding = UTF8 | Latin1 | CP1252

fun encoding_name :: "encoding \<Rightarrow> pystr" where
  "encoding_name UTF8 = u ''utf-8''"
| "encoding_name Latin1 = u ''latin-1''"
| "encoding_name CP1252 = u ''cp1252''"

datatype read_outcome = Decoded pystr | UnicodeDecodeError | ReadError pystr

datatype pdf_outcome = Pages "pystr option list" | PdfError "nat option" pystr

datatype pdf_library = Pdfplumber | PyPDF2

record file_entry =
  file_name :: pystr
  file_stem :: pystr
  file_suffix :: pystr
  file_exists :: bool
  file_is_file :: bool
  read_text :: "encoding \<Rightarrow> read_outcome"
  read_pdf :: pdf_outcome

text \<open>
  \<open>s.lower()\<close> on the letters A to Z. No other code point is lowered to a character of
  \<open>.pdf\<close> or \<open>.txt\<close>, so the comparisons of a suffix with these come out as in Python.
\<close>

definition lower :: "pystr \<Rightarrow> pystr" where
  "lower s = map (\<lambda>c. if 65 \<le> c \<and> c \<le> 90 then c + 32 else c) s"

subsection \<open>utils.validate_file_path\<close>

definition validate_file_path :: "file_entry \<Rightarrow> pystr list \<Rightarrow> bool" where
  "validate_file_path f extensions =
     (if \<not> file_exists f then False
      else if \<not> file_is_file f then False
      else if extensions \<noteq> [] \<and> lower (file_suffix f) \<notin> set (map lower extensions) then False
      else True)"

definition new_document :: "file_entry \<Rightarrow> extracted_document" where
  "new_document f =
     \<lparr>doc_filename = file_name f, doc_content = [], doc_metadata = [], doc_error = None\<rparr>"

subsection \<open>ingest.extract_text_from_pdf\<close>

text \<open>The page texts that are neither \<open>None\<close> nor empty.\<close>

fun text_parts :: "pystr option list \<Rightarrow> pystr list" where
  "text_parts [] = []"
| "text_parts (None # ps) = text_parts ps"
| "text_parts (Some t # ps) = (if t \<noteq> [] then t # text_parts ps else text_parts ps)"

definition extract_text_from_pdf :: "pdf_library option \<Rightarrow> file_entry \<Rightarrow> extracted_document" where
  "extract_text_from_pdf PDF_LIBRARY f =
     (let result = new_document f in
      if \<not> validate_file_path f [u ''.pdf''] then
        result\<lparr>doc_error := Some (u ''Invalid PDF file path'')\<rparr>
      else case PDF_LIBRARY of
        None \<Rightarrow> result\<lparr>doc_error := Some (u ''No PDF library available'')\<rparr>
      | Some library \<Rightarrow>
          (case read_pdf f of
             Pages pages \<Rightarrow>
               result\<lparr>doc_metadata := [(u ''pages'', JInt (int (length pages)))],
                       doc_content :=
                         sanitize_text (str_join (u ''\<newline>\<newline>'') (text_parts pages))\<rparr>
           | PdfError None e \<Rightarrow> result\<lparr>doc_error := Some e\<rparr>
           | PdfError (Some n) e \<Rightarrow>
               result\<lparr>doc_metadata := [(u ''pages'', JInt (int n))], doc_error := Some e\<rparr>))"

subsection \<open>ingest.extract_text_from_txt\<close>

text \<open>
  The loop over the encodings: the first encoding that decodes sets content and
  metadata and ends the loop, a \<open>UnicodeDecodeError\<close> moves on to the next encoding, any
  other exception leaves the loop for the outer handler.
\<close>

fun try_encodings ::
  "file_entry \<Rightarrow> encoding list \<Rightarrow> extracted_document \<Rightarrow> extracted_document \<times> pystr option" where
  "try_encodings f [] result = (result, None)"
| "try_encodings f (enc # encodings) result =
     (case read_text f enc of
        Decoded content \<Rightarrow>
          (result\<lparr>doc_content := sanitize_text content,
                  doc_metadata :=
                    dict_set (doc_metadata result) (u ''encoding'') (JStr (encoding_name enc))\<rparr>,
           None)
      | UnicodeDecodeError \<Rightarrow> try_encodings f encodings result
      | ReadError e \<Rightarrow> (result, Some e))"

definition extract_text_from_txt :: "file_entry \<Rightarrow> extracted_document" where
  "extract_text_from_txt f =
     (let result = new_document f in
      if \<not> validate_file_path f [u ''.txt''] then
        result\<lparr>doc_error := Some (u ''Invalid TXT file path'')\<rparr>
      else case try_encodings f [UTF8, Latin1, CP1252] result of
        (result, Some e) \<Rightarrow> result\<lparr>doc_error := Some e\<rparr>
      | (result, None) \<Rightarrow>
          if doc_content result = []
          then result\<lparr>doc_error := Some (u ''Failed to decode text file'')\<rparr>
          else result)"

subsection \<open>ingest.load_local_data\<close>

text \<open>
  The data directory: absent, or present with the entries that \<open>glob('*.pdf')\<close> and
  \<open>glob('*.txt')\<close> list, in the order the file system gives them.
\<close>

datatype directory = NoDirectory | Directory "file_entry list" "file_entry list"

text \<open>\<open>if file_data['error']\<close>: an error that is neither \<open>None\<close> nor the empty string.\<close>

definition has_error :: "extracted_document \<Rightarrow> bool" where
  "has_error d = (case doc_error d of None \<Rightarrow> False | Some e \<Rightarrow> e \<noteq> [])"

text \<open>The end of the loop body: the extracted file goes to the errors or to the documents.\<close>

definition record_file :: "file_entry \<Rightarrow> extracted_document \<Rightarrow> local_data \<Rightarrow> local_data" where
  "record_file f file_data result =
     (if has_error file_data then
        result\<lparr>errors := errors result @ [file_name f @ u '': '' @ the (doc_error file_data)],
                summary_failed := summary_failed result + 1\<rparr>
      else
        result\<lparr>files_data := dict_set (files_data result) (file_stem f) file_data,
                summary_successful := summary_successful result + 1\<rparr>)"

fun load_files :: "pdf_library option \<Rightarrow> file_entry list \<Rightarrow> local_data \<Rightarrow> local_data" where
  "load_files PDF_LIBRARY [] result = result"
| "load_files PDF_LIBRARY (f # all_files) result =
     (if lower (file_suffix f) = u ''.pdf'' then
        load_files PDF_LIBRARY all_files
          (record_file f (extract_text_from_pdf PDF_LIBRARY f) result)
      else if lower (file_suffix f) = u ''.txt'' then
        load_files PDF_LIBRARY all_files (record_file f (extract_text_from_txt f) result)
      else load_files PDF_LIBRARY all_files result)"

definition load_local_data :: "pdf_library option \<Rightarrow> pystr \<Rightarrow> directory \<Rightarrow> local_data" where
  "load_local_data PDF_LIBRARY data_dir dir =
     (let result = \<lparr>files_data = [], errors = [], total_files = 0,
                     summary_successful = 0, summary_failed = 0\<rparr> in
      case dir of
        NoDirectory \<Rightarrow> result\<lparr>errors := [u ''Directory not found: '' @ data_dir]\<rparr>
      | Directory pdfs txts \<Rightarrow>
          (let all_files = pdfs @ txts
           in load_files PDF_LIBRARY all_files (result\<lparr>total_files := length all_files\<rparr>)))"

subsection \<open>Example files\<close>

text \<open>
  A text file that holds only blanks and a line break; and the files \<open>admissions.pdf\<close> and
  \<open>admissions.txt\<close> of one directory, both readable.
\<close>

definition blank_txt :: file_entry where
  "blank_txt =
     \<lparr>file_name = u ''blank.txt'', file_stem = u ''blank'', file_suffix = u ''.txt'',
      file_exists = True, file_is_file = True,
      read_text = (\<lambda>enc. Decoded (u ''  \<newline>'')),
      read_pdf = PdfError None (u ''No /Root object! - Is this really a PDF?'')\<rparr>"

definition admissions_pdf :: file_entry where
  "admissions_pdf =
     \<lparr>file_name = u ''admissions.pdf'', file_stem = u ''admissions'', file_suffix = u ''.pdf'',
      file_exists = True, file_is_file = True,
      read_text = (\<lambda>enc. UnicodeDecodeError),
      read_pdf = Pages [Some (u ''Minimum GPA: 3.0'')]\<rparr>"

definition admissions_txt :: file_entry where
  "admissions_txt =
     \<lparr>file_name = u ''admissions.txt'', file_stem = u ''admissions'', file_suffix = u ''.txt'',
      file_exists = True, file_is_file = True,
      read_text = (\<lambda>enc. Decoded (u ''Deadline: Jan 15. Fee: $75.'')),
      read_pdf = PdfError None (u ''No /Root object! - Is this really a PDF?'')\<rparr>"

subsection \<open>Files by the outcome of their extraction\<close>

text \<open>
  A file is handled when its suffix sends it to one of the two extractors; it fails when
  the extractor reports an error, and succeeds otherwise.
\<close>

definition handled :: "file_entry \<Rightarrow> bool" where
  "handled f \<longleftrightarrow> lower (file_suffix f) = u ''.pdf'' \<or> lower (file_suffix f) = u ''.txt''"

definition extract_file :: "pdf_library option \<Rightarrow> file_entry \<Rightarrow> extracted_document" where
  "extract_file PDF_LIBRARY f =
     (if lower (file_suffix f) = u ''.pdf'' then extract_text_from_pdf PDF_LIBRARY f
      else extract_text_from_txt f)"

definition failing :: "pdf_library option \<Rightarrow> file_entry \<Rightarrow> bool" where
  "failing PDF_LIBRARY f \<longleftrightarrow> handled f \<and> has_error (extract_file PDF_LIBRARY f)"

definition succeeding :: "pdf_library option \<Rightarrow> file_entry \<Rightarrow> bool" where
  "succeeding PDF_LIBRARY f \<longleftrightarrow> handled f \<and> \<not> has_error (extract_file PDF_LIBRARY f)"

section \<open>utils: the JSON cache on disk\<close>

subsection \<open>What \<open>json.dump\<close> writes and \<open>json.load\<close> reads back\<close>

text \<open>
  The payloads that \<open>json.dump\<close> accepts: \<open>None\<close>, booleans, integers, strings, lists,
  tuples, and dicts whose keys are strings, integers, booleans or \<open>None\<close>. Numbers are
  integers, as everywhere in this development. A dict is the list of its items in
  insertion order.
\<close>

datatype pykey = KStr pystr | KInt int | KBool bool | KNone

datatype pyval =
    PNone
  | PBool bool
  | PInt int
  | PStr pystr
  | PList "pyval list"
  | PTuple "pyval list"
  | PDict "(pykey \<times> pyval) list"

text \<open>
  The member name that \<open>json.dump\<close> writes for a key: the string itself, \<open>true\<close>,
  \<open>false\<close> or \<open>null\<close>, and the decimal form of an integer.
\<close>

fun key_text :: "pykey \<Rightarrow> pystr" where
  "key_text (KStr s) = s"
| "key_text (KInt n) = (if n < 0 then u ''-'' @ str_nat (nat (- n)) else str_nat (nat n))"
| "key_text (KBool b) = (if b then u ''true'' else u ''false'')"
| "key_text KNone = u ''null''"

text \<open>
  \<open>json.load\<close> builds the dict of an object from its members in their order, a later
  member replacing the value of an earlier one of the same name.
\<close>

definition dict_of_pairs :: "('k \<times> 'v) list \<Rightarrow> ('k \<times> 'v) list" where
  "dict_of_pairs kvs = foldl (\<lambda>d (k, v). dict_set d k v) [] kvs"

text \<open>
  The value that \<open>json.load\<close> reads from the text that \<open>json.dump\<close> has written for a
  payload: a tuple is written as an array and comes back as a list, a key comes back as
  the string written for it.
\<close>

fun json_reload :: "pyval \<Rightarrow> json" where
  "json_reload PNone = JNull"
| "json_reload (PBool b) = JBool b"
| "json_reload (PInt n) = JInt n"
| "json_reload (PStr s) = JStr s"
| "json_reload (PList xs) = JArr (map json_reload xs)"
| "json_reload (PTuple xs) = JArr (map json_reload xs)"
| "json_reload (PDict kvs) =
     JObj (dict_of_pairs (map (\<lambda>(k, v). (key_text k, json_reload v)) kvs))"

text \<open>A value read by \<open>json.load\<close>, as a payload: arrays are lists, names are strings.\<close>

fun of_json :: "json \<Rightarrow> pyval" where
  "of_json JNull = PNone"
| "of_json (JBool b) = PBool b"
| "of_json (JInt n) = PInt n"
| "of_json (JStr s) = PStr s"
| "of_json (JArr xs) = PList (map of_json xs)"
| "of_json (JObj kvs) = PDict (map (\<lambda>(k, v). (KStr k, of_json v)) kvs)"

text \<open>
  The payloads that are JSON values already: no tuple anywhere, and every dict has
  string keys only.
\<close>

fun is_KStr :: "pykey \<Rightarrow> bool" where
  "is_KStr (KStr s) = True"
| "is_KStr k = False"

fun json_native :: "pyval \<Rightarrow> bool" where
  "json_native (PList xs) = list_all json_native xs"
| "json_native (PTuple xs) = False"
| "json_native (PDict kvs) =
     (distinct (map fst kvs) \<and> list_all (\<lambda>(k, v). is_KStr k \<and> json_native v) kvs)"
| "json_native v = True"

text \<open>
  The file is opened with \<open>encoding='utf-8'\<close> and written with \<open>ensure_ascii=False\<close>, so
  a string goes to the file as it is, and \<open>f.write\<close> raises \<open>UnicodeEncodeError\<close> for a
  surrogate code point.
\<close>

definition utf8_encodable :: "pystr \<Rightarrow> bool" where
  "utf8_encodable s = list_all (\<lambda>c. c < 55296 \<or> (57343 < c \<and> c < 1114112)) s"

fun key_encodable :: "pykey \<Rightarrow> bool" where
  "key_encodable (KStr s) = utf8_encodable s"
| "key_encodable k = True"

fun encodable :: "pyval \<Rightarrow> bool" where
  "encodable (PStr s) = utf8_encodable s"
| "encodable (PList xs) = list_all encodable xs"
| "encodable (PTuple xs) = list_all encodable xs"
| "encodable (PDict kvs) = list_all (\<lambda>(k, v). key_encodable k \<and> encodable v) kvs"
| "encodable v = True"

subsection \<open>Files and the clock\<close>

text \<open>
  What is stored at a path, as \<open>open\<close> and \<open>json.load\<close> see it: a file that cannot be read,
  a file that is not JSON (each with the \<open>str(e)\<close> of the exception), or a JSON document,
  held as the value that \<open>json.load\<close> returns for it. A storage maps the paths that exist
  to their content.
\<close>

datatype file_content = Unreadable pystr | NotJson pystr | JsonDoc json

type_synonym storage = "pystr \<Rightarrow> file_content option"

text \<open>
  A \<open>datetime\<close> without \<open>tzinfo\<close> is the reading of a wall clock, here a number of
  microseconds, the resolution of \<open>datetime\<close>; one with \<open>tzinfo\<close> has a reading and a UTC
  offset. The two functions of the library that the cache uses are parameters of the
  model: \<open>isoformat\<close> of a \<open>datetime\<close> without \<open>tzinfo\<close>, and \<open>fromisoformat\<close> of a string,
  which returns either kind of \<open>datetime\<close> or raises \<open>ValueError\<close>.
\<close>

datatype stamp = Naive int | Aware int int

record datetime_lib =
  isoformat :: "int \<Rightarrow> pystr"
  fromisoformat :: "pystr \<Rightarrow> pyexc + stamp"

text \<open>
  \<open>datetime.now()\<close> returns the reading of the local wall clock, without \<open>tzinfo\<close>: the
  instant, in microseconds of UTC, plus the UTC offset that local time has at that
  instant. A zone gives the offset at every instant.
\<close>

type_synonym zone = "int \<Rightarrow> int"

definition datetime_now :: "zone \<Rightarrow> int \<Rightarrow> int" where
  "datetime_now tz t = t + tz t"

text \<open>
  \<open>timedelta.total_seconds()\<close> divides the microseconds by \<open>10 ** 6\<close> and returns a float.
  The difference of two readings of a \<open>datetime\<close> clock is less than \<open>2 ^ 59\<close>
  microseconds, so the division does not overflow for them.
\<close>

definition total_seconds :: "int \<Rightarrow> rat option" where
  "total_seconds d = int_truediv d 1000000"

text \<open>\<open>k in v\<close> for a string \<open>k\<close>, and \<open>v[k]\<close>.\<close>

fun py_contains :: "pystr \<Rightarrow> json \<Rightarrow> pyexc + bool" where
  "py_contains k (JObj kvs) = Inr (k \<in> set (map fst kvs))"
| "py_contains k (JArr xs) = Inr (JStr k \<in> set xs)"
| "py_contains k (JStr s) = Inr (sublist k s)"
| "py_contains k v =
     Inl (OtherException (u ''argument of type '' @ [39] @ type_name v @ [39] @
                          u '' is not iterable''))"

fun py_getitem :: "json \<Rightarrow> pystr \<Rightarrow> pyexc + json" where
  "py_getitem (JObj kvs) k =
     (case map_of kvs k of
        None \<Rightarrow> Inl (OtherException ([39] @ k @ [39]))
      | Some v \<Rightarrow> Inr v)"
| "py_getitem (JArr xs) k =
     Inl (OtherException (u ''list indices must be integers or slices, not str''))"
| "py_getitem (JStr s) k =
     Inl (OtherException (u ''string indices must be integers, not '' @ [39] @ u ''str'' @ [39]))"
| "py_getitem v k =
     Inl (OtherException ([39] @ type_name v @ [39] @ u '' object is not subscriptable''))"

subsection \<open>utils.load_json_cache\<close>

text \<open>
  The age test of lines 149 to 155, on a document that has been loaded; \<open>now\<close> is what
  \<open>datetime.now()\<close> returns on line 152. The result is the exception raised, or whether
  the entry has expired. \<open>fromisoformat\<close> raises \<open>TypeError\<close> for a timestamp that is not a
  string, and the subtraction raises it for a timestamp with a UTC offset. The age is
  a float and \<open>CACHE_TTL\<close> an integer number of seconds; Python compares the two by value.
\<close>

definition cache_expired :: "datetime_lib \<Rightarrow> int \<Rightarrow> int \<Rightarrow> json \<Rightarrow> pyexc + bool" where
  "cache_expired lib CACHE_TTL now data =
     (case py_contains (u ''timestamp'') data of
        Inl e \<Rightarrow> Inl e
      | Inr False \<Rightarrow> Inr False
      | Inr True \<Rightarrow>
          (case py_getitem data (u ''timestamp'') of
             Inl e \<Rightarrow> Inl e
           | Inr (JStr s) \<Rightarrow>
               (case fromisoformat lib s of
                  Inl e \<Rightarrow> Inl e
                | Inr (Aware t offset) \<Rightarrow>
                    Inl (OtherException (u ''can'' @ [39] @
                           u ''t subtract offset-naive and offset-aware datetimes''))
                | Inr (Naive cache_time) \<Rightarrow>
                    (case total_seconds (now - cache_time) of
                       None \<Rightarrow> Inl OverflowError
                     | Some age \<Rightarrow> Inr (of_int CACHE_TTL < age)))
           | Inr v \<Rightarrow>
               Inl (OtherException (u ''fromisoformat: argument must be str''))))"

definition load_json_cache ::
  "datetime_lib \<Rightarrow> int \<Rightarrow> storage \<Rightarrow> int \<Rightarrow> pystr \<Rightarrow> json option" where
  "load_json_cache lib CACHE_TTL fs now cache_file =
     (case fs cache_file of
        None \<Rightarrow> None
      | Some (Unreadable e) \<Rightarrow> None
      | Some (NotJson e) \<Rightarrow> None
      | Some (JsonDoc data) \<Rightarrow>
          (case cache_expired lib CACHE_TTL now data of
             Inl e \<Rightarrow> None
           | Inr True \<Rightarrow> None
           | Inr False \<Rightarrow> Some data))"

subsection \<open>utils.save_json_cache\<close>

text \<open>
  Creating the directory, opening the file and writing to it either go through or
  raise, which is the environment's to say: \<open>OSError\<close> from the file system, or
  \<open>ValueError\<close> where the interpreter limits the digits of an integer that it writes.
  After an attempt that raised, for such a reason or because a string cannot be encoded,
  the path holds whatever the attempt has left there. \<open>now\<close> is what \<open>datetime.now()\<close>
  returns on line 177.
\<close>

record write_attempt =
  write_raises :: bool
  left_behind :: "file_content option"

definition save_json_cache ::
  "datetime_lib \<Rightarrow> storage \<Rightarrow> int \<Rightarrow> write_attempt \<Rightarrow> pystr \<Rightarrow> pyval \<Rightarrow> storage \<times> bool" where
  "save_json_cache lib fs now attempt cache_file data =
     (let cache_data = PDict [(KStr (u ''timestamp''), PStr (isoformat lib now)),
                              (KStr (u ''data''), data)] in
      if write_raises attempt \<or> \<not> encodable cache_data
      then (fs(cache_file := left_behind attempt), False)
      else (fs(cache_file \<mapsto> JsonDoc (json_reload cache_data)), True))"

subsection \<open>An example clock, example zones and example files\<close>

text \<open>
  A stand-in for the \<open>datetime\<close> library: a reading is written as its decimal digits, and
  digits followed by \<open>Z\<close> are read as a \<open>datetime\<close> with the UTC offset 0.
\<close>

fun digits_value :: "pystr \<Rightarrow> nat \<Rightarrow> nat option" where
  "digits_value [] acc = Some acc"
| "digits_value (c # cs) acc =
     (if 48 \<le> c \<and> c \<le> 57 then digits_value cs (10 * acc + (c - 48)) else None)"

definition decimal_fromisoformat :: "pystr \<Rightarrow> pyexc + stamp" where
  "decimal_fromisoformat s =
     (case (if s = [] then None else digits_value s 0) of
        Some n \<Rightarrow> Inr (Naive (int n))
      | None \<Rightarrow>
          (case (if butlast s = [] \<or> last s \<noteq> 90 then None else digits_value (butlast s) 0) of
             Some n \<Rightarrow> Inr (Aware (int n) 0)
           | None \<Rightarrow> Inl (OtherException (u ''Invalid isoformat string: '' @ [39] @ s @ [39]))))"

definition decimal_clock :: datetime_lib where
  "decimal_clock =
     \<lparr>isoformat = (\<lambda>t. str_nat (nat t)), fromisoformat = decimal_fromisoformat\<rparr>"

text \<open>
  Zones, with the offsets in microseconds: one hour ahead of UTC throughout; two hours
  ahead until the instant 7200 s and one hour from then on, as when clocks are set back
  in autumn; and one hour ahead until 7200 s and two hours from then on, as in spring.
\<close>

definition fixed_zone :: zone where
  "fixed_zone t = 3600000000"

definition autumn_zone :: zone where
  "autumn_zone t = (if t < 7200000000 then 7200000000 else 3600000000)"

definition spring_zone :: zone where
  "spring_zone t = (if t < 7200000000 then 3600000000 else 7200000000)"

text \<open>
  The payload that the scraper stores for a page, and a payload with a tuple and an
  integer key.
\<close>

definition scraped_payload :: pyval where
  "scraped_payload =
     PDict [(KStr (u ''url''), PStr (u ''https://university-website.edu/admissions'')),
            (KStr (u ''content''), PStr (u ''Apply by Jan 15.'')),
            (KStr (u ''selectors_found''), PList [PStr (u ''main_content'')])]"

definition paged_payload :: pyval where
  "paged_payload = PDict [(KInt 1, PStr (u ''a'')), (KStr (u ''pages''), PTuple [PInt 1, PInt 2])]"

definition cache_path :: pystr where
  "cache_path = u ''cache/web_cache_0f2a.json''"

definition can_write :: write_attempt where
  "can_write = \<lparr>write_raises = False, left_behind = None\<rparr>"

text \<open>
  Storages that hold one file at \<open>cache_path\<close>, and documents for it: without a
  timestamp; with a timestamp that is no date, that has a UTC offset, and that is a
  number.
\<close>

definition one_file :: "file_content \<Rightarrow> storage" where
  "one_file c = (\<lambda>p. if p = cache_path then Some c else None)"

definition undated_entry :: json where
  "undated_entry = JObj [(u ''data'', json_reload scraped_payload)]"

definition misdated_entry :: json where
  "misdated_entry =
     JObj [(u ''timestamp'', JStr (u ''yesterday'')), (u ''data'', json_reload scraped_payload)]"

definition zoned_entry :: json where
  "zoned_entry =
     JObj [(u ''timestamp'', JStr (u ''5000000Z'')), (u ''data'', json_reload scraped_payload)]"

definition numbered_entry :: json where
  "numbered_entry =
     JObj [(u ''timestamp'', JInt 5000000), (u ''data'', json_reload scraped_payload)]"

section \<open>app: the request handlers\<close>

text \<open>
  The two module-level caches of \<open>app\<close>.
\<close>

record app_state =
  global_context_cache :: "pystr option"
  compressed_context_cache :: "compression_result option"

text \<open>
  What a request finds outside the process: the data directory, the result of
  \<open>scrape_website\<close> (which is not modelled) for a given \<open>use_cache\<close>, the scraping switch of
  the configuration, the compressor singleton and the compression service, the
  generation call \<open>generate_response\<close> (outside the core, it returns a text or raises),
  and \<open>str\<close> on a list or a dict.
\<close>

record environment =
  env_pdf_library :: "pdf_library option"
  env_data_dir :: pystr
  env_directory :: directory
  env_scrape :: "bool \<Rightarrow> web_data"
  SCRAPING_ENABLED :: bool
  env_compressor :: compressor
  env_service :: "request \<Rightarrow> api_outcome"
  env_generate :: "json \<Rightarrow> json \<Rightarrow> pyexc + pystr"
  env_repr :: "json \<Rightarrow> pystr"

subsection \<open>ingest.get_complete_context\<close>

record context_result =
  result_context :: pystr
  result_local_data :: local_data
  result_web_data :: web_data
  result_errors :: "pystr list"

definition get_complete_context :: "environment \<Rightarrow> bool \<Rightarrow> bool \<Rightarrow> context_result" where
  "get_complete_context env use_web_scraping use_cache =
     (let local_result =
            load_local_data (env_pdf_library env) (env_data_dir env) (env_directory env);
          web_result =
            (if use_web_scraping \<and> SCRAPING_ENABLED env then env_scrape env use_cache
             else \<lparr>scraped_data = [], web_errors = [], cached = False\<rparr>)
      in \<lparr>result_context = merge_data local_result web_result,
          result_local_data = local_result,
          result_web_data = web_result,
          result_errors = errors local_result @ web_errors web_result\<rparr>)"

subsection \<open>app.load_global_context\<close>

definition load_global_context :: "environment \<Rightarrow> app_state \<Rightarrow> app_state \<times> pystr" where
  "load_global_context env st =
     (case global_context_cache st of
        Some cached_context \<Rightarrow> (st, cached_context)
      | None \<Rightarrow>
          (let result = get_complete_context env True True in
           if result_context result \<noteq> []
           then (st\<lparr>global_context_cache := Some (result_context result)\<rparr>, result_context result)
           else (st\<lparr>global_context_cache := Some []\<rparr>, [])))"

subsection \<open>app.chat\<close>

text \<open>\<open>str(v)\<close>, as an f-string formats a value.\<close>

fun py_str :: "(json \<Rightarrow> pystr) \<Rightarrow> json \<Rightarrow> pystr" where
  "py_str rep (JStr s) = s"
| "py_str rep JNull = u ''None''"
| "py_str rep (JBool b) = (if b then u ''True'' else u ''False'')"
| "py_str rep (JInt n) = (if n < 0 then u ''-'' @ str_nat (nat (- n)) else str_nat (nat n))"
| "py_str rep v = rep v"

record compression_stats =
  stats_original_tokens :: json
  stats_compressed_tokens :: json
  stats_compression_ratio :: rat
  stats_successful :: json
  stats_latency_ms :: json
  stats_cached :: bool

text \<open>
  The answers of the handlers: the reply of \<open>chat\<close> with status 200, the reply of
  \<open>reload_context\<close> with the size of the context, or an error with its status, message
  and code.
\<close>

datatype http_response =
    ChatReply pystr compression_stats
  | ReloadReply nat
  | ErrorReply nat pystr pystr

definition no_context_reply :: http_response where
  "no_context_reply =
     ErrorReply 500 (u ''Chatbot context not available. Please try again later.'')
       (u ''NO_CONTEXT'')"

definition internal_error_reply :: http_response where
  "internal_error_reply =
     ErrorReply 500 (u ''An unexpected error occurred. Please try again.'') (u ''INTERNAL_ERROR'')"

text \<open>\<open>scaledown.compress_context\<close>, called with context and prompt.\<close>

definition compress_context :: "environment \<Rightarrow> pystr \<Rightarrow> pystr \<Rightarrow> compression_result" where
  "compress_context env context prompt =
     fst (compress (env_compressor env) (env_service env) context prompt None None)"

text \<open>
  Lines 145 to 163: compress and keep the result when it reports success, or reuse the
  kept result with the new question appended.
\<close>

definition compress_or_reuse ::
  "environment \<Rightarrow> pystr \<Rightarrow> pystr \<Rightarrow> app_state \<Rightarrow> app_state \<times> compression_result" where
  "compress_or_reuse env context user_message st =
     (case compressed_context_cache st of
        None \<Rightarrow>
          (let compression_result = compress_context env context user_message in
           if py_truthy (successful compression_result)
           then (st\<lparr>compressed_context_cache := Some compression_result\<rparr>, compression_result)
           else (st, compression_result))
      | Some cached_result \<Rightarrow>
          (st, cached_result\<lparr>compressed_prompt :=
                 JStr (py_str (env_repr env) (compressed_prompt cached_result) @
                       u ''\<newline>\<newline>New User Query: '' @ user_message)\<rparr>))"

text \<open>Lines 129 to 205, for a message that has passed the checks of the request.\<close>

definition answer ::
  "environment \<Rightarrow> pystr \<Rightarrow> json \<Rightarrow> app_state \<Rightarrow> app_state \<times> http_response" where
  "answer env user_message conversation_history st =
     (let (st, context) = load_global_context env st in
      if context = [] then (st, no_context_reply)
      else
        (let (st, compression_result) = compress_or_reuse env context user_message st;
             compression_stats =
               \<lparr>stats_original_tokens = original_tokens compression_result,
                stats_compressed_tokens = compressed_tokens compression_result,
                stats_compression_ratio = compression_ratio compression_result,
                stats_successful = successful compression_result,
                stats_latency_ms = latency_ms compression_result,
                stats_cached = (compressed_context_cache st \<noteq> None)\<rparr>
         in case env_generate env (compressed_prompt compression_result) conversation_history of
              Inr response_text \<Rightarrow> (st, ChatReply response_text compression_stats)
            | Inl gemini_error \<Rightarrow>
                (st, ErrorReply 500 (u ''Failed to generate response. Please try again.'')
                       (u ''GEMINI_ERROR''))))"

text \<open>
  \<open>chat\<close> on the outcome of \<open>request.get_json()\<close>: an exception, or the parsed body. An
  exception anywhere before the generation call ends in the handler of line 207.
\<close>

definition chat :: "environment \<Rightarrow> pyexc + json \<Rightarrow> app_state \<Rightarrow> app_state \<times> http_response" where
  "chat env request_json st =
     (case request_json of
        Inl e \<Rightarrow> (st, internal_error_reply)
      | Inr data \<Rightarrow>
          if \<not> py_truthy data
          then (st, ErrorReply 400 (u ''Invalid JSON request'') (u ''INVALID_JSON''))
          else
            (case dict_get data (u ''message'') (JStr []) of
               Inl e \<Rightarrow> (st, internal_error_reply)
             | Inr (JStr message) \<Rightarrow>
                 (let user_message = strip message in
                  case dict_get data (u ''history'') (JArr []) of
                    Inl e \<Rightarrow> (st, internal_error_reply)
                  | Inr conversation_history \<Rightarrow>
                      if user_message = []
                      then (st, ErrorReply 400 (u ''Message cannot be empty'') (u ''EMPTY_MESSAGE''))
                      else answer env user_message conversation_history st)
             | Inr v \<Rightarrow> (st, internal_error_reply)))"

subsection \<open>app.reload_context\<close>

definition reload_context :: "environment \<Rightarrow> app_state \<Rightarrow> app_state \<times> http_response" where
  "reload_context env st =
     (let st = st\<lparr>global_context_cache := None, compressed_context_cache := None\<rparr>;
          (st, context) = load_global_context env st
      in (st, ReloadReply (length context)))"

subsection \<open>States and an example environment\<close>

text \<open>
  The compression cache holds nothing or a result that reports success; the context
  cache holds nothing or a context that is not empty.
\<close>

definition cache_reports_success :: "app_state \<Rightarrow> bool" where
  "cache_reports_success st =
     (case compressed_context_cache st of None \<Rightarrow> True | Some r \<Rightarrow> py_truthy (successful r))"

definition context_available :: "app_state \<Rightarrow> bool" where
  "context_available st = (global_context_cache st \<noteq> Some [])"

definition start_state :: app_state where
  "start_state = \<lparr>global_context_cache = None, compressed_context_cache = None\<rparr>"

definition loaded_state :: app_state where
  "loaded_state = \<lparr>global_context_cache = Some (u ''ctx''), compressed_context_cache = None\<rparr>"

text \<open>
  An empty data directory, scraping switched off, and a compression service that answers
  with the body that reports success and carries no original token count.
\<close>

definition example_env :: environment where
  "example_env =
     \<lparr>env_pdf_library = Some Pdfplumber,
      env_data_dir = u ''college_data'',
      env_directory = Directory [] [],
      env_scrape = (\<lambda>use_cache. no_web),
      SCRAPING_ENABLED = False,
      env_compressor = example_compressor,
      env_service = (\<lambda>req. Body ill_typed_body),
      env_generate = (\<lambda>prompt history. Inr (u ''The deadline is January 15.'')),
      env_repr = (\<lambda>v. u ''...'')\<rparr>"

definition deadline_request :: "pyexc + json" where
  "deadline_request = Inr (JObj [(u ''message'', JStr (u ''q''))])"

section \<open>Properties of the string functions\<close>

lemma isspace_32 [simp]: "isspace 32"
  by (simp add: isspace_def)

lemma u_space [simp]: "u '' '' = [32]"
  by (simp add: u_def)

lemma split_from_nonempty: "[] \<notin> set (split_from w s)"
  by (induction w s rule: split_from.induct) simp_all

lemma split_from_nospace_words:
  "p \<in> set (split_from w s) \<Longrightarrow> c \<in> set p \<Longrightarrow> isspace c \<Longrightarrow> \<exists>d\<in>set w. isspace d"
proof (induction w s rule: split_from.induct)
  case (1 w)
  then show ?case by (cases "w = []") auto
next
  case (2 w a cs)
  show ?case
  proof (cases "isspace a")
    case True
    note sp = this
    show ?thesis
    proof (cases "w = []")
      case True
      with 2 sp show ?thesis by simp
    next
      case False
      with 2 sp show ?thesis by fastforce
    qed
  next
    case False
    with 2 have "\<exists>d\<in>set (w @ [a]). isspace d" by simp
    with False show ?thesis by auto
  qed
qed

lemma split_from_words:
  "\<forall>c\<in>set w. \<not> isspace c \<Longrightarrow> \<forall>p\<in>set (split_from w s). word_ok p"
  unfolding word_ok_def using split_from_nonempty split_from_nospace_words by metis

lemma split_from_chars: "set (concat (split_from w s)) \<subseteq> set w \<union> set s"
  by (induction w s rule: split_from.induct) auto

lemma split_from_nospace:
  "\<forall>c\<in>set p. \<not> isspace c \<Longrightarrow> split_from w (p @ s) = split_from (w @ p) s"
  by (induction p arbitrary: w) auto

lemma split_join_words:
  "\<forall>p\<in>set ws. word_ok p \<Longrightarrow> split_from [] (str_join [32] ws) = ws"
proof (induction "[32::nat]" ws rule: str_join.induct)
  case 1
  then show ?case by simp
next
  case (2 p)
  then have "split_from [] (p @ []) = split_from ([] @ p) []"
    by (intro split_from_nospace) (simp add: word_ok_def)
  with 2 show ?case by (simp add: word_ok_def)
next
  case (3 p q ps)
  have "split_from [] (p @ ([32] @ str_join [32] (q # ps)))
      = split_from ([] @ p) ([32] @ str_join [32] (q # ps))"
    using 3(2) by (intro split_from_nospace) (simp add: word_ok_def)
  with 3 show ?case by (simp add: word_ok_def)
qed

lemma set_join: "set (str_join sep ws) \<subseteq> set sep \<union> set (concat ws)"
  by (induction sep ws rule: str_join.induct) auto

lemma join_hd:
  "\<forall>p\<in>set ws. word_ok p \<Longrightarrow> ws \<noteq> [] \<Longrightarrow>
   str_join [32] ws \<noteq> [] \<and> \<not> isspace (hd (str_join [32] ws)) \<and>
   \<not> isspace (last (str_join [32] ws))"
proof (induction "[32::nat]" ws rule: str_join.induct)
  case 1
  then show ?case by simp
next
  case (2 p)
  then have "p \<noteq> []" "\<not> isspace (hd p)" "\<not> isspace (last p)"
    by (simp_all add: word_ok_def)
  then show ?case by simp
next
  case (3 p q ps)
  from 3(2) have p: "p \<noteq> []" "\<not> isspace (hd p)" by (simp_all add: word_ok_def)
  from 3 have r: "str_join [32] (q # ps) \<noteq> []"
    "\<not> isspace (last (str_join [32] (q # ps)))"
    by simp_all
  show ?case using p r by simp
qed

lemma strip_id:
  assumes "s = [] \<or> (\<not> isspace (hd s) \<and> \<not> isspace (last s))"
  shows "strip s = s"
proof -
  have 1: "dropWhile isspace s = s"
    using assms by (auto simp add: dropWhile_eq_self_iff)
  have 2: "dropWhile isspace (rev s) = rev s"
    using assms by (auto simp add: dropWhile_eq_self_iff hd_rev)
  show ?thesis by (simp add: strip_def 1 2)
qed

text \<open>
  On a text without the null code point, \<open>sanitize_text\<close> is the words of the text
  joined by single spaces, and a second pass changes nothing.
\<close>

lemma sanitize_nul_free:
  assumes "0 \<notin> set x"
  shows "sanitize_text x = str_join [32] (str_split x)"
proof (cases "x = []")
  case True
  then show ?thesis by (simp add: sanitize_text_def str_split_def)
next
  case False
  let ?ws = "str_split x"
  have ok: "\<forall>p\<in>set ?ws. word_ok p"
    unfolding str_split_def by (rule split_from_words) simp
  have "set (str_join [32] ?ws) \<subseteq> {32} \<union> set x"
    using set_join[of "[32]" ?ws] split_from_chars[of "[]" x] by (auto simp: str_split_def)
  with assms have "0 \<notin> set (str_join [32] ?ws)" by auto
  then have nf: "filter (\<lambda>c. c \<noteq> 0) (str_join [32] ?ws) = str_join [32] ?ws"
    by (intro filter_True) metis
  have "strip (str_join [32] ?ws) = str_join [32] ?ws"
    using join_hd[OF ok] by (cases "?ws = []") (auto intro: strip_id)
  with nf False show ?thesis by (simp add: sanitize_text_def)
qed

lemma sanitize_idem_nul_free:
  assumes "0 \<notin> set x"
  shows "sanitize_text (sanitize_text x) = sanitize_text x"
proof -
  let ?ws = "str_split x"
  let ?y = "str_join [32] ?ws"
  have ok: "\<forall>p\<in>set ?ws. word_ok p"
    unfolding str_split_def by (rule split_from_words) simp
  have y: "sanitize_text x = ?y" using assms by (rule sanitize_nul_free)
  have "set ?y \<subseteq> {32} \<union> set x"
    using set_join[of "[32]" ?ws] split_from_chars[of "[]" x] by (auto simp: str_split_def)
  with assms have "0 \<notin> set ?y" by auto
  then have "sanitize_text ?y = str_join [32] (str_split ?y)" by (rule sanitize_nul_free)
  also have "str_split ?y = ?ws"
    using split_join_words ok by (simp add: str_split_def)
  finally show ?thesis using y by simp
qed

text \<open>
  C6. Sanitization is claimed idempotent. \<open>sanitize_text\<close> removes the null code point
  only after the whitespace has been collapsed, so a null that stands alone between two
  spaces leaves two adjacent spaces behind: the text \<open>"a \\x00 b"\<close> is sanitized to
  \<open>"a  b"\<close>, and sanitizing that result again gives \<open>"a b"\<close>.
\<close>

theorem sanitize_text_twice_differs:
  "sanitize_text [97, 32, 0, 32, 98] = [97, 32, 32, 98] \<and>
   sanitize_text (sanitize_text [97, 32, 0, 32, 98]) = [97, 32, 98] \<and>
   sanitize_text (sanitize_text [97, 32, 0, 32, 98]) \<noteq> sanitize_text [97, 32, 0, 32, 98]"
  by (simp add: sanitize_text_def str_split_def strip_def isspace_def)

section \<open>Properties of \<open>merge_data\<close>\<close>

lemma u_newline [simp]: "u ''\<newline>'' = [10]" by (simp add: u_def)

lemma sublist_newline:
  assumes "10 \<notin> set p" "p \<noteq> []"
  shows "sublist p (xs @ [10] @ ys) \<longleftrightarrow> sublist p xs \<or> sublist p ys"
proof
  assume "sublist p (xs @ [10] @ ys)"
  then consider "sublist p xs" | "sublist p ([10] @ ys)"
    | p1 p2 where "p = p1 @ p2" "suffix p1 xs" "prefix p2 ([10] @ ys)"
    by (auto simp: sublist_append)
  then show "sublist p xs \<or> sublist p ys"
  proof cases
    case 1 then show ?thesis by simp
  next
    case 2
    then have "prefix p (10 # ys) \<or> sublist p ys" by (simp add: sublist_Cons_right)
    moreover have "\<not> prefix p (10 # ys)" using assms by (cases p) auto
    ultimately show ?thesis by simp
  next
    case 3
    have "p2 = []" using 3(1,3) assms(1) by (cases p2) auto
    with 3 show ?thesis by (auto intro: suffix_imp_sublist)
  qed
next
  assume "sublist p xs \<or> sublist p ys"
  then show "sublist p (xs @ [10] @ ys)"
    by (metis sublist_append append_assoc)
qed

lemma sublist_join_newline:
  assumes "10 \<notin> set p" "p \<noteq> []"
  shows "sublist p (str_join [10] parts) \<Longrightarrow> \<exists>q\<in>set parts. sublist p q"
proof (induction "[10::nat]" parts rule: str_join.induct)
  case 1
  then show ?case using assms by simp
next
  case (2 q)
  then show ?case by simp
next
  case (3 q r ps)
  from 3(2) have "sublist p (q @ [10] @ str_join [10] (r # ps))" by simp
  then have "sublist p q \<or> sublist p (str_join [10] (r # ps))"
    using sublist_newline[OF assms] by blast
  with 3(1) show ?case by auto
qed

lemma sublist_set: "sublist xs ys \<Longrightarrow> set xs \<subseteq> set ys"
  by (auto simp: sublist_def)

lemma sublist_skip_left:
  assumes "sublist (a # p) (s @ ys)" "a \<notin> set s"
  shows "sublist (a # p) ys"
proof -
  from assms(1) consider "sublist (a # p) s" | "sublist (a # p) ys"
    | p1 p2 where "a # p = p1 @ p2" "suffix p1 s" "prefix p2 ys"
    by (auto simp: sublist_append)
  then show ?thesis
  proof cases
    case 1
    then have "set (a # p) \<subseteq> set s" by (rule sublist_set)
    with assms(2) show ?thesis by simp
  next
    case 2 then show ?thesis .
  next
    case 3
    show ?thesis
    proof (cases p1)
      case Nil
      with 3 show ?thesis by (auto intro: prefix_imp_sublist)
    next
      case (Cons b bs)
      with 3(1) have "b = a" by simp
      with Cons 3(2) have "a \<in> set s" by (auto simp: suffix_def)
      with assms(2) show ?thesis by simp
    qed
  qed
qed

lemma sublist_skip_right:
  assumes "sublist (p @ [a]) (ys @ t)" "a \<notin> set t"
  shows "sublist (p @ [a]) ys"
proof -
  from assms(1) consider "sublist (p @ [a]) ys" | "sublist (p @ [a]) t"
    | p1 p2 where "p @ [a] = p1 @ p2" "suffix p1 ys" "prefix p2 t"
    by (auto simp: sublist_append)
  then show ?thesis
  proof cases
    case 1 then show ?thesis .
  next
    case 2
    then have "set (p @ [a]) \<subseteq> set t" by (rule sublist_set)
    with assms(2) show ?thesis by simp
  next
    case 3
    show ?thesis
    proof (cases p2 rule: rev_cases)
      case Nil
      with 3 show ?thesis by (auto intro: suffix_imp_sublist)
    next
      case (snoc bs b)
      with 3(1) have "b = a" by (metis append_assoc snoc_eq_iff_butlast)
      with snoc 3(3) have "a \<in> set t" by (auto simp: prefix_def)
      with assms(2) show ?thesis by simp
    qed
  qed
qed


lemma live_header_split: "live_header = [10, 10] @ live_header_line @ [10]"
  by (simp add: live_header_def live_header_line_def u_def)

lemma line_no_newline: "10 \<notin> set live_header_line"
  by (simp add: live_header_line_def u_def)

lemma line_first: "\<exists>p. live_header_line = 61 # p"
  by (simp add: live_header_line_def u_def)

lemma line_last: "\<exists>p. live_header_line = p @ [61]"
  by (simp add: live_header_line_def u_def)

lemma line_not_in_local_header: "\<not> sublist live_header_line local_header"
proof
  assume "sublist live_header_line local_header"
  then have "set live_header_line \<subseteq> set local_header" by (rule sublist_set)
  moreover have "87 \<in> set live_header_line" by (simp add: live_header_line_def u_def)
  moreover have "87 \<notin> set local_header" by (simp add: local_header_def u_def)
  ultimately show False by blast
qed

lemma file_header_shape:
  "u ''\<newline>--- '' @ f @ u '' ---\<newline>'' = [] @ [10] @ ((u ''--- '' @ f @ u '' ---'') @ [10] @ [])"
  by (simp add: u_def)

lemma line_in_file_header:
  assumes "sublist live_header_line (u ''\<newline>--- '' @ f @ u '' ---\<newline>'')"
  shows "sublist live_header_line f"
proof -
  have ne: "live_header_line \<noteq> []" using line_first by auto
  from assms have "sublist live_header_line ([] @ [10] @ ((u ''--- '' @ f @ u '' ---'') @ [10] @ []))"
    by (simp only: file_header_shape)
  then have "sublist live_header_line ((u ''--- '' @ f @ u '' ---'') @ [10] @ [])"
    using sublist_newline[OF line_no_newline ne] ne by (metis sublist_Nil_right)
  then have 1: "sublist live_header_line (u ''--- '' @ f @ u '' ---'')"
    using sublist_newline[OF line_no_newline ne] ne by (metis sublist_Nil_right)
  obtain p where p: "live_header_line = 61 # p" using line_first by blast
  have "61 \<notin> set (u ''--- '')" by (simp add: u_def)
  with 1 p have 2: "sublist live_header_line (f @ u '' ---'')"
    using sublist_skip_left[of 61 p "u ''--- ''" "f @ u '' ---''"] by simp
  obtain q where q: "live_header_line = q @ [61]" using line_last by blast
  have "61 \<notin> set (u '' ---'')" by (simp add: u_def)
  with 2 q show ?thesis
    using sublist_skip_right[of q 61 f "u '' ---''"] by simp
qed

lemma merge_data_local_only:
  "scraped_data web = [] \<Longrightarrow>
   merge_data local web = str_join [10] (local_header # concat (map file_parts (files_data local)))"
  by (simp add: merge_data_def Let_def)

lemma merge_local_only_no_line:
  assumes "scraped_data web = []"
    and "\<forall>kv\<in>set (files_data local).
           \<not> sublist live_header_line (doc_filename (snd kv)) \<and>
           \<not> sublist live_header_line (doc_content (snd kv))"
  shows "\<not> sublist live_header_line (merge_data local web)"
proof
  assume "sublist live_header_line (merge_data local web)"
  then have "sublist live_header_line
      (str_join [10] (local_header # concat (map file_parts (files_data local))))"
    using assms(1) by (simp only: merge_data_local_only)
  moreover have ne: "live_header_line \<noteq> []" using line_first by auto
  ultimately obtain q where q: "q \<in> set (local_header # concat (map file_parts (files_data local)))"
    "sublist live_header_line q"
    using sublist_join_newline[OF line_no_newline] by blast
  from q(1) consider "q = local_header"
    | kv where "kv \<in> set (files_data local)" "q \<in> set (file_parts kv)"
    by auto
  then show False
  proof cases
    case 1
    with q(2) line_not_in_local_header show False by simp
  next
    case 2
    then have "q = u ''\<newline>--- '' @ doc_filename (snd kv) @ u '' ---\<newline>'' \<or> q = doc_content (snd kv)"
      by (simp add: file_parts_def)
    with q(2) have "sublist live_header_line (doc_filename (snd kv)) \<or>
                    sublist live_header_line (doc_content (snd kv))"
      using line_in_file_header by blast
    with assms(2) 2(1) show False by blast
  qed
qed

lemma str_join_append:
  "xs \<noteq> [] \<Longrightarrow> ys \<noteq> [] \<Longrightarrow> str_join sep (xs @ ys) = str_join sep xs @ sep @ str_join sep ys"
proof (induction sep xs rule: str_join.induct)
  case (1 sep)
  then show ?case by simp
next
  case (2 sep p)
  then show ?case by (cases ys) simp_all
next
  case (3 sep p q ps)
  then show ?case by simp
qed

lemma str_join_Cons: "\<exists>rest. str_join sep (p # ps) = p @ rest"
  by (cases ps) simp_all

lemma merge_data_live_after_local:
  assumes "scraped_data web \<noteq> []"
  shows "merge_data local web =
           merge_data local (web\<lparr>scraped_data := []\<rparr>) @ [10] @ live_header @ [10] @
           str_join [10] (concat (map page_parts (scraped_data web)))"
proof -
  let ?A = "local_header # concat (map file_parts (files_data local))"
  let ?P = "concat (map page_parts (scraped_data web))"
  have ne: "?P \<noteq> []"
    using assms by (cases "scraped_data web") (simp_all add: page_parts_def)
  have "merge_data local web = str_join [10] (?A @ (live_header # ?P))"
    using assms by (simp add: merge_data_def Let_def)
  also have "\<dots> = str_join [10] ?A @ [10] @ str_join [10] (live_header # ?P)"
    by (rule str_join_append) simp_all
  also have "str_join [10] (live_header # ?P) = live_header @ [10] @ str_join [10] ?P"
    using ne by (cases ?P) simp_all
  also have "str_join [10] ?A = merge_data local (web\<lparr>scraped_data := []\<rparr>)"
    by (simp add: merge_data_def Let_def)
  finally show ?thesis .
qed

lemma merge_data_parts:
  "merge_data local web =
     str_join [10] (local_header #
       (concat (map file_parts (files_data local)) @
        (if scraped_data web \<noteq> []
         then live_header # concat (map page_parts (scraped_data web)) else [])))"
  by (simp add: merge_data_def Let_def)

lemma merge_data_prefix: "\<exists>rest. merge_data local web = local_header @ rest"
  unfolding merge_data_parts by (rule str_join_Cons)

lemma file_parts_texts:
  "concat (map file_parts (files_data local)) =
   concat (map (\<lambda>fc. [u ''\<newline>--- '' @ fst fc @ u '' ---\<newline>'', snd fc]) (local_texts local))"
  by (simp add: local_texts_def file_parts_def[abs_def] comp_def)

lemma page_parts_texts:
  "concat (map page_parts (scraped_data web)) =
   concat (map (\<lambda>fc. [u ''\<newline>--- From '' @ fst fc @ u '' ---\<newline>'', snd fc]) (web_texts web))"
  by (simp add: web_texts_def page_parts_def[abs_def] comp_def)

lemma merge_data_texts:
  assumes "local_texts local = local_texts local'" "web_texts web = web_texts web'"
  shows "merge_data local web = merge_data local' web'"
proof -
  have "local_texts local = [] \<longleftrightarrow> local_texts local' = []"
    using assms(1) by simp
  then have 1: "files_data local = [] \<longleftrightarrow> files_data local' = []"
    by (simp add: local_texts_def)
  have "web_texts web = [] \<longleftrightarrow> web_texts web' = []"
    using assms(2) by simp
  then have 2: "scraped_data web = [] \<longleftrightarrow> scraped_data web' = []"
    by (simp add: web_texts_def)
  show ?thesis
    unfolding merge_data_def Let_def file_parts_texts page_parts_texts assms 1 2 ..
qed

lemma length_u [simp]: "length (u s) = length s"
  by (simp add: u_def)

lemma length_live_header_line: "length live_header_line = 41"
  by (simp add: live_header_line_def)

lemma shorter_not_sublist: "length ys < length xs \<Longrightarrow> \<not> sublist xs ys"
  using sublist_length_le by fastforce

lemma line_in_header: "sublist live_header_line live_header"
  unfolding live_header_split by (rule sublist_appendI)

text \<open>
  C5 (as amended). With no scraped page, \<open>merge_data\<close> emits the local section only: the
  local header and, for each file, its sub-header and content, joined by line breaks;
  when no local file name or content contains the live-data header line, the merged
  context does not contain that line, nor the header. With at least one scraped page,
  the merged context is the merged context of the local data alone, which begins with
  the local header, followed by a line break, the live-data header, a line break, and
  for each page its sub-header and content, joined by line breaks. The result depends
  only on the file names and contents and on the source addresses and contents, in their
  iteration order.
\<close>

theorem merge_data_sections:
  "(scraped_data web = [] \<longrightarrow>
      merge_data local web =
        str_join [10] (local_header # concat (map file_parts (files_data local)))) \<and>
   (scraped_data web = [] \<longrightarrow>
      (\<forall>kv\<in>set (files_data local).
         \<not> sublist live_header_line (doc_filename (snd kv)) \<and>
         \<not> sublist live_header_line (doc_content (snd kv))) \<longrightarrow>
      \<not> sublist live_header_line (merge_data local web) \<and>
      \<not> sublist live_header (merge_data local web)) \<and>
   (scraped_data web \<noteq> [] \<longrightarrow>
      prefix local_header (merge_data local (web\<lparr>scraped_data := []\<rparr>)) \<and>
      merge_data local web =
        merge_data local (web\<lparr>scraped_data := []\<rparr>) @ [10] @ live_header @ [10] @
        str_join [10] (concat (map page_parts (scraped_data web)))) \<and>
   (local_texts local = local_texts local' \<longrightarrow> web_texts web = web_texts web' \<longrightarrow>
      merge_data local web = merge_data local' web')"
proof (intro conjI impI)
  assume "scraped_data web = []"
  then show "merge_data local web =
        str_join [10] (local_header # concat (map file_parts (files_data local)))"
    by (rule merge_data_local_only)
next
  assume a: "scraped_data web = []"
    "\<forall>kv\<in>set (files_data local).
       \<not> sublist live_header_line (doc_filename (snd kv)) \<and>
       \<not> sublist live_header_line (doc_content (snd kv))"
  then show 1: "\<not> sublist live_header_line (merge_data local web)"
    by (rule merge_local_only_no_line)
  show "\<not> sublist live_header (merge_data local web)"
    using 1 line_in_header sublist_order.order_trans by blast
next
  show "prefix local_header (merge_data local (web\<lparr>scraped_data := []\<rparr>))"
    using merge_data_prefix[of local "web\<lparr>scraped_data := []\<rparr>"] by (auto simp: prefix_def)
next
  assume "scraped_data web \<noteq> []"
  then show "merge_data local web =
        merge_data local (web\<lparr>scraped_data := []\<rparr>) @ [10] @ live_header @ [10] @
        str_join [10] (concat (map page_parts (scraped_data web)))"
    by (rule merge_data_live_after_local)
next
  assume "local_texts local = local_texts local'" "web_texts web = web_texts web'"
  then show "merge_data local web = merge_data local' web'"
    by (rule merge_data_texts)
qed

text \<open>
  The parts at the corpus of one file \<open>admissions.txt\<close>, without and with one scraped page.
\<close>

theorem merge_data_sections_witness:
  "merge_data admissions_local no_web =
     local_header @ [10] @ u ''\<newline>--- '' @ u ''admissions.txt'' @ u '' ---\<newline>'' @ [10] @
     u ''Deadline: Jan 15. Fee: $75.'' \<and>
   \<not> sublist live_header (merge_data admissions_local no_web) \<and>
   prefix local_header (merge_data admissions_local no_web) \<and>
   merge_data admissions_local admissions_web =
     merge_data admissions_local no_web @ [10] @ live_header @ [10] @
     u ''\<newline>--- From '' @ u ''https://university-website.edu/admissions'' @ u '' ---\<newline>'' @
     [10] @ u ''Apply by Jan 15.'' \<and>
   merge_data admissions_local admissions_web =
   merge_data (admissions_local\<lparr>errors := [u ''x'']\<rparr>) (admissions_web\<lparr>cached := True\<rparr>)"
proof -
  have h1: "scraped_data no_web = []" by (simp add: no_web_def)
  have h2: "\<forall>kv\<in>set (files_data admissions_local).
         \<not> sublist live_header_line (doc_filename (snd kv)) \<and>
         \<not> sublist live_header_line (doc_content (snd kv))"
    by (simp add: admissions_local_def admissions_doc_def shorter_not_sublist
        length_live_header_line)
  have h3: "scraped_data admissions_web \<noteq> []" by (simp add: admissions_web_def)
  have h4: "admissions_web\<lparr>scraped_data := []\<rparr> = no_web"
    by (simp add: admissions_web_def no_web_def)
  have h5: "local_texts admissions_local = local_texts (admissions_local\<lparr>errors := [u ''x'']\<rparr>)"
    "web_texts admissions_web = web_texts (admissions_web\<lparr>cached := True\<rparr>)"
    by (simp_all add: local_texts_def web_texts_def)
  note A = merge_data_sections[of no_web admissions_local admissions_local no_web]
  note B = merge_data_sections[of admissions_web admissions_local
        "admissions_local\<lparr>errors := [u ''x'']\<rparr>" "admissions_web\<lparr>cached := True\<rparr>"]
  have "merge_data admissions_local no_web =
      str_join [10] (local_header # concat (map file_parts (files_data admissions_local)))"
    using A h1 by blast
  then have c0: "merge_data admissions_local no_web =
     local_header @ [10] @ u ''\<newline>--- '' @ u ''admissions.txt'' @ u '' ---\<newline>'' @ [10] @
     u ''Deadline: Jan 15. Fee: $75.''"
    by (simp add: admissions_local_def admissions_doc_def file_parts_def)
  have c1: "\<not> sublist live_header (merge_data admissions_local no_web)"
    using A h1 h2 by blast
  have c2: "prefix local_header (merge_data admissions_local no_web)"
    using B h3 unfolding h4 by blast
  have "merge_data admissions_local admissions_web =
      merge_data admissions_local no_web @ [10] @ live_header @ [10] @
      str_join [10] (concat (map page_parts (scraped_data admissions_web)))"
    using B h3 unfolding h4 by blast
  moreover have "str_join [10] (concat (map page_parts (scraped_data admissions_web))) =
     u ''\<newline>--- From '' @ u ''https://university-website.edu/admissions'' @ u '' ---\<newline>'' @
     [10] @ u ''Apply by Jan 15.''"
    by (simp add: admissions_web_def page_parts_def)
  ultimately have c3: "merge_data admissions_local admissions_web =
     merge_data admissions_local no_web @ [10] @ live_header @ [10] @
     u ''\<newline>--- From '' @ u ''https://university-website.edu/admissions'' @ u '' ---\<newline>'' @
     [10] @ u ''Apply by Jan 15.''"
    by (simp only:)
  have c4: "merge_data admissions_local admissions_web =
      merge_data (admissions_local\<lparr>errors := [u ''x'']\<rparr>) (admissions_web\<lparr>cached := True\<rparr>)"
    using B h5 by blast
  show ?thesis using c0 c1 c2 c3 c4 by (intro conjI)
qed

text \<open>
  C5 as stated fails: with no scraped page, a local file whose content is the header line
  \<open>=== LIVE DATA FROM UNIVERSITY WEBSITE ===\<close>, followed by another file, gives a merged
  context that contains the live-data header with its line breaks.
\<close>

theorem merge_data_live_header_counterexample:
  "scraped_data no_web = [] \<and> sublist live_header (merge_data notice_local no_web)"
proof -
  have "merge_data notice_local no_web =
      (local_header @ [10] @ u ''\<newline>--- '' @ u ''notice.txt'' @ u '' ---'')
      @ live_header @
      ([10] @ u ''--- '' @ u ''admissions.txt'' @ u '' ---\<newline>'' @ [10] @ doc_content admissions_doc)"
    by (simp add: merge_data_def Let_def notice_local_def no_web_def file_parts_def
        live_header_split admissions_doc_def) (simp add: u_def)
  moreover have "sublist live_header
      ((local_header @ [10] @ u ''\<newline>--- '' @ u ''notice.txt'' @ u '' ---'')
      @ live_header @
      ([10] @ u ''--- '' @ u ''admissions.txt'' @ u '' ---\<newline>'' @ [10] @ doc_content admissions_doc))"
    by (rule sublist_appendI)
  moreover have "scraped_data no_web = []" by (simp add: no_web_def)
  ultimately show ?thesis by (simp only:)
qed

section \<open>Properties of \<open>compress\<close>\<close>

lemma u_eq_iff [simp]: "u a = u b \<longleftrightarrow> a = b"
  unfolding u_def using inj_of_char[where 'a = nat] by (simp add: inj_map_eq_map)

lemma u_Nil_iff [simp]: "u a = [] \<longleftrightarrow> a = []"
  by (simp add: u_def)

lemma u_append_ne [simp]: "a \<noteq> [] \<Longrightarrow> u a @ s \<noteq> []"
  by simp

text \<open>
  C2. Without a configured API key \<open>compress\<close> returns at once, having sent no request:
  \<open>successful\<close> is false, the error is \<open>API key not configured\<close>, the compressed prompt is
  \<open>context + "\n\nUser Query: " + prompt\<close>, and every other field has its initial value.
\<close>

theorem compress_without_api_key:
  "api_key self = [] \<Longrightarrow>
   compress self service context prompt model rate =
     (\<lparr>compressed_prompt = JStr (context @ u ''\<newline>\<newline>User Query: '' @ prompt),
       original_tokens = JInt 0, compressed_tokens = JInt 0, compression_ratio = 1,
       successful = JBool False, error = Some (u ''API key not configured''),
       latency_ms = JInt 0\<rparr>, [])"
  by (simp add: compress_def initial_result_def fallback_prompt_def)

text \<open>
  C1. Every failure of the compression call is claimed to give \<open>successful = false\<close>
  together with the error string and the fallback prompt. The fields of the body are
  stored in \<open>result\<close> before the ratio is computed, and no handler resets them: when the
  body reports success and carries \<open>null\<close> as the original token count, the comparison
  \<open>None > 0\<close> raises, the handler for unexpected exceptions writes the error and the
  fallback prompt, and \<open>successful\<close> stays true.
\<close>

theorem compress_fallback_marked_successful:
  "fst (compress example_compressor (\<lambda>req. Body ill_typed_body) (u ''ctx'') (u ''q'') None None) =
     \<lparr>compressed_prompt = JStr (u ''ctx'' @ u ''\<newline>\<newline>User Query: '' @ u ''q''),
      original_tokens = JNull, compressed_tokens = JInt 0, compression_ratio = 1,
      successful = JBool True,
      error = Some (u ''Unexpected error in Scaledown compression: '' @
                    [39, 62, 39] @ u '' not supported between instances of '' @
                    [39] @ u ''NoneType'' @ [39] @ u '' and '' @ [39] @ u ''int'' @ [39]),
      latency_ms = JInt 0\<rparr>"
  by (simp add: compress_def example_compressor_def ill_typed_body_def try_body_def
      ratio_step_def initial_result_def fallback_prompt_def)

lemma try_body_raises: "try_body (Raises e) context prompt result = (result, Some e)"
  by (simp add: try_body_def)

lemma error_msg_nonempty: "error_msg self e \<noteq> []"
  by (cases e) simp_all

lemma compress_on_exception:
  assumes "api_key self \<noteq> []"
    and "service (the_request self context prompt model rate) = Raises e"
  shows "fst (compress self service context prompt model rate) =
           initial_result\<lparr>error := Some (error_msg self e),
                          compressed_prompt := JStr (fallback_prompt context prompt)\<rparr>"
  using assms by (simp add: compress_def try_body_raises Let_def)

lemma ratio_step_fields:
  "error (fst (ratio_step context prompt result)) = error result"
  "compressed_prompt (fst (ratio_step context prompt result)) = compressed_prompt result"
  "original_tokens (fst (ratio_step context prompt result)) = original_tokens result"
  "compressed_tokens (fst (ratio_step context prompt result)) = compressed_tokens result"
  by (simp_all add: ratio_step_def Let_def split: sum.splits option.splits)

lemma after_ratio_step:
  "(case ratio_step context prompt result of
      (r, Some e) \<Rightarrow> (r, Some e)
    | (r, None) \<Rightarrow> (r, format_compression_stats r)) =
   (fst (ratio_step context prompt result),
    case snd (ratio_step context prompt result) of
      Some e \<Rightarrow> Some e
    | None \<Rightarrow> format_compression_stats (fst (ratio_step context prompt result)))"
  by (simp split: prod.splits option.splits)

lemma try_body_error: "error (fst (try_body outcome context prompt result)) = error result"
  by (simp add: try_body_def after_ratio_step ratio_step_fields
      split: api_outcome.splits sum.splits)

lemma compress_error_fallback:
  assumes "error (fst (compress self service context prompt model rate)) \<noteq> None"
  shows "compressed_prompt (fst (compress self service context prompt model rate)) =
           JStr (fallback_prompt context prompt) \<and>
         (\<exists>m. error (fst (compress self service context prompt model rate)) = Some m \<and> m \<noteq> [])"
proof (cases "api_key self = []")
  case True
  then show ?thesis by (simp add: compress_def initial_result_def)
next
  case False
  obtain r x where tb: "try_body (service (the_request self context prompt model rate))
      context prompt initial_result = (r, x)" by fastforce
  show ?thesis
  proof (cases x)
    case None
    have "error r = None"
      using try_body_error[of "service (the_request self context prompt model rate)"
        "context" prompt initial_result] tb
      by (simp add: initial_result_def)
    with None tb False assms show ?thesis by (simp add: compress_def Let_def)
  next
    case (Some e)
    with tb False show ?thesis by (simp add: compress_def Let_def error_msg_nonempty)
  qed
qed

lemma dict_get_count:
  "absent_or is_count (map_of kvs k) \<Longrightarrow> \<exists>n\<ge>0. dict_get (JObj kvs) k (JInt 0) = Inr (JInt n)"
  by (cases "map_of kvs k") (auto elim: is_count.elims)

lemma dict_get_flag:
  "absent_or is_flag (map_of kvs k) \<Longrightarrow> \<exists>b. dict_get (JObj kvs) k (JBool False) = Inr (JBool b)"
  by (cases "map_of kvs k") (auto elim: is_flag.elims)

lemma dict_get_results:
  "absent_or results_ok (map_of kvs k) \<Longrightarrow>
   \<exists>rs. dict_get (JObj kvs) k (JObj []) = Inr (JObj rs) \<and>
        absent_or is_string (map_of rs (u ''compressed_prompt''))"
  by (cases "map_of kvs k") (auto elim: results_ok.elims)

lemma dict_get_string:
  "absent_or is_string (map_of rs k) \<Longrightarrow> \<exists>s. dict_get (JObj rs) k (JStr []) = Inr (JStr s)"
  by (cases "map_of rs k") (auto elim: is_string.elims)

text \<open>
  The ratio step on typed fields: the quotient of the token counts when both are
  positive, else the quotient of the character counts when the prompt is not empty; a
  quotient beyond the floats raises.
\<close>

lemma ratio_step_typed:
  assumes "compressed_prompt result = JStr cp" "original_tokens result = JInt a"
    "compressed_tokens result = JInt b"
  shows "ratio_step context prompt result =
     (if 0 < a \<and> 0 < b then
        (case int_truediv a b of
           None \<Rightarrow> (result, Some OverflowError)
         | Some q \<Rightarrow> (result\<lparr>compression_ratio := q\<rparr>, None))
      else if cp \<noteq> [] then
        (case int_truediv (int (length context + length prompt)) (int (length cp)) of
           None \<Rightarrow> (result, Some OverflowError)
         | Some q \<Rightarrow> (result\<lparr>compression_ratio := q\<rparr>, None))
      else (result, None))"
  using assms by (auto simp add: ratio_step_def py_truediv_def Let_def split: option.splits)

lemma try_body_well_formed:
  assumes "well_formed_response data"
  shows "\<exists>rs cp a b l s.
      dict_get data (u ''results'') (JObj []) = Inr (JObj rs) \<and>
      dict_get (JObj rs) (u ''compressed_prompt'') (JStr []) = Inr (JStr cp) \<and>
      dict_get data (u ''total_original_tokens'') (JInt 0) = Inr (JInt a) \<and>
      dict_get data (u ''total_compressed_tokens'') (JInt 0) = Inr (JInt b) \<and>
      fst (try_body (Body data) context prompt result) =
        fst (ratio_step context prompt
          (result\<lparr>compressed_prompt := JStr cp, original_tokens := JInt a,
                  compressed_tokens := JInt b, latency_ms := JInt l, successful := JBool s\<rparr>)) \<and>
      (snd (ratio_step context prompt
          (result\<lparr>compressed_prompt := JStr cp, original_tokens := JInt a,
                  compressed_tokens := JInt b, latency_ms := JInt l, successful := JBool s\<rparr>))
         \<noteq> None \<longrightarrow>
       snd (try_body (Body data) context prompt result) \<noteq> None)"
proof -
  from assms obtain kvs where d: "data = JObj kvs" by (cases data) auto
  with assms obtain rs where rs: "dict_get data (u ''results'') (JObj []) = Inr (JObj rs)"
    "absent_or is_string (map_of rs (u ''compressed_prompt''))"
    using dict_get_results[of kvs "u ''results''"] by auto
  then obtain cp where cp: "dict_get (JObj rs) (u ''compressed_prompt'') (JStr []) = Inr (JStr cp)"
    using dict_get_string by blast
  from assms d obtain a where a:
    "dict_get data (u ''total_original_tokens'') (JInt 0) = Inr (JInt a)"
    using dict_get_count[of kvs "u ''total_original_tokens''"] by auto
  from assms d obtain b where b:
    "dict_get data (u ''total_compressed_tokens'') (JInt 0) = Inr (JInt b)"
    using dict_get_count[of kvs "u ''total_compressed_tokens''"] by auto
  from assms d obtain l where l:
    "dict_get data (u ''latency_ms'') (JInt 0) = Inr (JInt l)"
    using dict_get_count[of kvs "u ''latency_ms''"] by auto
  from assms d obtain s where s:
    "dict_get data (u ''successful'') (JBool False) = Inr (JBool s)"
    using dict_get_flag[of kvs "u ''successful''"] by auto
  let ?r = "result\<lparr>compressed_prompt := JStr cp, original_tokens := JInt a,
                  compressed_tokens := JInt b, latency_ms := JInt l, successful := JBool s\<rparr>"
  have tb: "try_body (Body data) context prompt result =
        (fst (ratio_step context prompt ?r),
         case snd (ratio_step context prompt ?r) of
           Some e \<Rightarrow> Some e
         | None \<Rightarrow> format_compression_stats (fst (ratio_step context prompt ?r)))"
    by (simp add: try_body_def after_ratio_step rs cp a b l s del: dict_get.simps)
  have 1: "fst (try_body (Body data) context prompt result) = fst (ratio_step context prompt ?r)"
    unfolding tb by simp
  have 2: "snd (ratio_step context prompt ?r) \<noteq> None \<longrightarrow>
      snd (try_body (Body data) context prompt result) \<noteq> None"
    unfolding tb by auto
  from rs(1) cp a b 1 2 show ?thesis by blast
qed

lemma compress_fields:
  assumes "api_key self \<noteq> []"
  shows "compression_ratio (fst (compress self service context prompt model rate)) =
           compression_ratio (fst (try_body (service (the_request self context prompt model rate))
             context prompt initial_result))"
    and "original_tokens (fst (compress self service context prompt model rate)) =
           original_tokens (fst (try_body (service (the_request self context prompt model rate))
             context prompt initial_result))"
    and "compressed_tokens (fst (compress self service context prompt model rate)) =
           compressed_tokens (fst (try_body (service (the_request self context prompt model rate))
             context prompt initial_result))"
    and "snd (try_body (service (the_request self context prompt model rate))
             context prompt initial_result) \<noteq> None \<Longrightarrow>
         error (fst (compress self service context prompt model rate)) \<noteq> None \<and>
         compressed_prompt (fst (compress self service context prompt model rate)) =
           JStr (fallback_prompt context prompt)"
  using assms by (auto simp add: compress_def Let_def split: prod.splits option.splits)

text \<open>
  C7 (as amended). On a well-formed response the token counts of the result are those
  of the body, and the ratio is: when both counts are positive, their quotient as
  Python's division of integers gives it, the float nearest to it, or 1 when the
  quotient is beyond the floats, in which case the division raises and the result is the
  fallback with an error; otherwise, when the compressed prompt is not empty, the
  quotient of \<open>len(context) + len(prompt)\<close> and \<open>len(compressed_prompt)\<close>, computed the same
  way; otherwise 1.
\<close>

theorem compress_ratio:
  assumes "api_key self \<noteq> []"
    and "service (the_request self context prompt model rate) = Body data"
    and "well_formed_response data"
  shows "\<exists>rs cp a b.
      dict_get data (u ''results'') (JObj []) = Inr (JObj rs) \<and>
      dict_get (JObj rs) (u ''compressed_prompt'') (JStr []) = Inr (JStr cp) \<and>
      dict_get data (u ''total_original_tokens'') (JInt 0) = Inr (JInt a) \<and>
      dict_get data (u ''total_compressed_tokens'') (JInt 0) = Inr (JInt b) \<and>
      original_tokens (fst (compress self service context prompt model rate)) = JInt a \<and>
      compressed_tokens (fst (compress self service context prompt model rate)) = JInt b \<and>
      compression_ratio (fst (compress self service context prompt model rate)) =
        (if 0 < a \<and> 0 < b then (case int_truediv a b of Some q \<Rightarrow> q | None \<Rightarrow> 1)
         else if cp \<noteq> [] then
           (case int_truediv (int (length context + length prompt)) (int (length cp)) of
              Some q \<Rightarrow> q | None \<Rightarrow> 1)
         else 1) \<and>
      (0 < a \<and> 0 < b \<and> int_truediv a b = None \<longrightarrow>
         error (fst (compress self service context prompt model rate)) \<noteq> None \<and>
         compressed_prompt (fst (compress self service context prompt model rate)) =
           JStr (fallback_prompt context prompt))"
proof -
  from try_body_well_formed[OF assms(3), of "context" prompt initial_result]
  obtain rs cp a b l s where g:
    "dict_get data (u ''results'') (JObj []) = Inr (JObj rs)"
    "dict_get (JObj rs) (u ''compressed_prompt'') (JStr []) = Inr (JStr cp)"
    "dict_get data (u ''total_original_tokens'') (JInt 0) = Inr (JInt a)"
    "dict_get data (u ''total_compressed_tokens'') (JInt 0) = Inr (JInt b)"
    and tb: "fst (try_body (Body data) context prompt initial_result) =
        fst (ratio_step context prompt
          (initial_result\<lparr>compressed_prompt := JStr cp, original_tokens := JInt a,
                  compressed_tokens := JInt b, latency_ms := JInt l, successful := JBool s\<rparr>))"
    and ex: "snd (ratio_step context prompt
          (initial_result\<lparr>compressed_prompt := JStr cp, original_tokens := JInt a,
                  compressed_tokens := JInt b, latency_ms := JInt l, successful := JBool s\<rparr>))
         \<noteq> None \<longrightarrow>
       snd (try_body (Body data) context prompt initial_result) \<noteq> None"
    by blast
  let ?r = "initial_result\<lparr>compressed_prompt := JStr cp, original_tokens := JInt a,
                  compressed_tokens := JInt b, latency_ms := JInt l, successful := JBool s\<rparr>"
  let ?res = "fst (compress self service context prompt model rate)"
  note f = compress_fields[OF assms(1), of service "context" prompt model rate,
      unfolded assms(2)]
  have rs: "ratio_step context prompt ?r =
     (if 0 < a \<and> 0 < b then
        (case int_truediv a b of
           None \<Rightarrow> (?r, Some OverflowError)
         | Some q \<Rightarrow> (?r\<lparr>compression_ratio := q\<rparr>, None))
      else if cp \<noteq> [] then
        (case int_truediv (int (length context + length prompt)) (int (length cp)) of
           None \<Rightarrow> (?r, Some OverflowError)
         | Some q \<Rightarrow> (?r\<lparr>compression_ratio := q\<rparr>, None))
      else (?r, None))"
    by (rule ratio_step_typed) simp_all
  have t1: "original_tokens ?res = JInt a"
    unfolding f(2) tb by (simp add: ratio_step_fields)
  have t2: "compressed_tokens ?res = JInt b"
    unfolding f(3) tb by (simp add: ratio_step_fields)
  have t3: "compression_ratio ?res =
        (if 0 < a \<and> 0 < b then (case int_truediv a b of Some q \<Rightarrow> q | None \<Rightarrow> 1)
         else if cp \<noteq> [] then
           (case int_truediv (int (length context + length prompt)) (int (length cp)) of
              Some q \<Rightarrow> q | None \<Rightarrow> 1)
         else 1)"
    unfolding f(1) tb rs by (simp add: initial_result_def split: option.splits)
  have t4: "0 < a \<and> 0 < b \<and> int_truediv a b = None \<longrightarrow>
         error ?res \<noteq> None \<and> compressed_prompt ?res = JStr (fallback_prompt context prompt)"
  proof
    assume o: "0 < a \<and> 0 < b \<and> int_truediv a b = None"
    then have "snd (ratio_step context prompt ?r) \<noteq> None" unfolding rs by simp
    with ex have "snd (try_body (Body data) context prompt initial_result) \<noteq> None" by blast
    then show "error ?res \<noteq> None \<and> compressed_prompt ?res = JStr (fallback_prompt context prompt)"
      by (rule f(4))
  qed
  from g t1 t2 t3 t4 show ?thesis by blast
qed

lemma int_truediv_4: "int_truediv 1000 250 = Some 4" "int_truediv 24 6 = Some 4"
  by (simp_all add: int_truediv_def floor_log2_def bit_length.simps pow2_def
      round_half_even_def Let_def)

lemma huge_count_positive [simp]: "0 < huge_count" "0 \<le> huge_count"
  by (simp_all add: huge_count_def)

lemma int_truediv_huge [simp]: "int_truediv huge_count 1 = None"
  by (simp add: int_truediv_def huge_count_def)

text \<open>
  1000 and 250 tokens give the ratio 4; no compressed-token count and the prompt
  \<open>Jan 15\<close> for a context of 3 and a question of 21 characters give 24 / 6; an empty
  \<open>results\<close> object gives 1; and an original count of \<open>2 ^ 1024\<close> with a compressed count
  of 1 gives the fallback result with the ratio 1.
\<close>

theorem compress_ratio_witness:
  "compression_ratio (fst (compress example_compressor (\<lambda>req. Body counted_body)
       (u ''ctx'') (u ''What is the deadline?'') None None)) = 4 \<and>
   compression_ratio (fst (compress example_compressor (\<lambda>req. Body uncounted_body)
       (u ''ctx'') (u ''What is the deadline?'') None None)) = 4 \<and>
   compression_ratio (fst (compress example_compressor (\<lambda>req. Body empty_body)
       (u ''ctx'') (u ''What is the deadline?'') None None)) = 1 \<and>
   compression_ratio (fst (compress example_compressor (\<lambda>req. Body huge_body)
       (u ''ctx'') (u ''What is the deadline?'') None None)) = 1 \<and>
   error (fst (compress example_compressor (\<lambda>req. Body huge_body)
       (u ''ctx'') (u ''What is the deadline?'') None None)) \<noteq> None"
proof -
  have k: "api_key example_compressor \<noteq> []" by (simp add: example_compressor_def)
  have w: "well_formed_response counted_body" "well_formed_response uncounted_body"
    "well_formed_response empty_body" "well_formed_response huge_body"
    by (simp_all add: counted_body_def uncounted_body_def empty_body_def huge_body_def)
  have 1: "compression_ratio (fst (compress example_compressor (\<lambda>req. Body counted_body)
       (u ''ctx'') (u ''What is the deadline?'') None None)) = 4"
    using compress_ratio[OF k _ w(1), of "\<lambda>req. Body counted_body" "u ''ctx''"
        "u ''What is the deadline?''" None None]
    by (auto simp add: counted_body_def int_truediv_4)
  have 2: "compression_ratio (fst (compress example_compressor (\<lambda>req. Body uncounted_body)
       (u ''ctx'') (u ''What is the deadline?'') None None)) = 4"
    using compress_ratio[OF k _ w(2), of "\<lambda>req. Body uncounted_body" "u ''ctx''"
        "u ''What is the deadline?''" None None]
    by (auto simp add: uncounted_body_def int_truediv_4)
  have 3: "compression_ratio (fst (compress example_compressor (\<lambda>req. Body empty_body)
       (u ''ctx'') (u ''What is the deadline?'') None None)) = 1"
    using compress_ratio[OF k _ w(3), of "\<lambda>req. Body empty_body" "u ''ctx''"
        "u ''What is the deadline?''" None None]
    by (auto simp add: empty_body_def)
  have 4: "compression_ratio (fst (compress example_compressor (\<lambda>req. Body huge_body)
       (u ''ctx'') (u ''What is the deadline?'') None None)) = 1 \<and>
     error (fst (compress example_compressor (\<lambda>req. Body huge_body)
       (u ''ctx'') (u ''What is the deadline?'') None None)) \<noteq> None"
    using compress_ratio[OF k _ w(4), of "\<lambda>req. Body huge_body" "u ''ctx''"
        "u ''What is the deadline?''" None None]
    by (auto simp add: huge_body_def)
  from 1 2 3 4 show ?thesis by (intro conjI) simp_all
qed

text \<open>
  C7 as stated fails: the body is well-formed, both token counts are positive, and the
  ratio of the result is 1 where the quotient of the counts is \<open>2 ^ 1024\<close>: the division
  raises \<open>OverflowError\<close>, and the handler returns the fallback result.
\<close>

theorem compress_ratio_overflow_counterexample:
  "well_formed_response huge_body \<and>
   original_tokens (fst (compress example_compressor (\<lambda>req. Body huge_body)
       (u ''ctx'') (u ''What is the deadline?'') None None)) = JInt (2 ^ 1024) \<and>
   compressed_tokens (fst (compress example_compressor (\<lambda>req. Body huge_body)
       (u ''ctx'') (u ''What is the deadline?'') None None)) = JInt 1 \<and>
   compression_ratio (fst (compress example_compressor (\<lambda>req. Body huge_body)
       (u ''ctx'') (u ''What is the deadline?'') None None)) = 1 \<and>
   (2 :: rat) ^ 1024 / 1 \<noteq> 1"
proof -
  have "fst (compress example_compressor (\<lambda>req. Body huge_body)
       (u ''ctx'') (u ''What is the deadline?'') None None) =
     \<lparr>compressed_prompt = JStr (fallback_prompt (u ''ctx'') (u ''What is the deadline?'')),
      original_tokens = JInt huge_count, compressed_tokens = JInt 1, compression_ratio = 1,
      successful = JBool True, error = Some (error_msg example_compressor OverflowError),
      latency_ms = JInt 0\<rparr>"
    by (simp add: huge_body_def compress_def try_body_def ratio_step_def
        py_truediv_def initial_result_def example_compressor_def)
  moreover have "well_formed_response huge_body" by (simp add: huge_body_def)
  moreover have "(2 :: rat) ^ 1024 / 1 \<noteq> 1" by simp
  ultimately show ?thesis by (simp add: huge_count_def)
qed

text \<open>
  The scenario of the specification: no key in the configuration, the context \<open>ctx\<close> and
  the question \<open>What is the deadline?\<close>.
\<close>

theorem compress_without_api_key_witness:
  "api_key (ScaledownCompressor no_key_config None None) = [] \<and>
   compress (ScaledownCompressor no_key_config None None) (\<lambda>req. Raises Timeout)
       (u ''ctx'') (u ''What is the deadline?'') None None =
     (\<lparr>compressed_prompt = JStr (u ''ctx\<newline>\<newline>User Query: What is the deadline?''),
       original_tokens = JInt 0, compressed_tokens = JInt 0, compression_ratio = 1,
       successful = JBool False, error = Some (u ''API key not configured''),
       latency_ms = JInt 0\<rparr>, [])"
proof -
  have k: "api_key (ScaledownCompressor no_key_config None None) = []"
    by (simp add: ScaledownCompressor_def no_key_config_def)
  have "u ''ctx'' @ u ''\<newline>\<newline>User Query: '' @ u ''What is the deadline?'' =
        u ''ctx\<newline>\<newline>User Query: What is the deadline?''"
    by (simp add: u_def)
  with k compress_without_api_key[OF k, of "\<lambda>req. Raises Timeout" "u ''ctx''"
      "u ''What is the deadline?''" None None]
  show ?thesis by simp
qed

section \<open>Properties of the extractors and of \<open>load_local_data\<close>\<close>

lemma lower_txt [simp]: "lower (u ''.txt'') = u ''.txt''"
  by (simp add: lower_def u_def)

lemma lower_pdf [simp]: "lower (u ''.pdf'') = u ''.pdf''"
  by (simp add: lower_def u_def)

lemma try_encodings_first:
  assumes "\<forall>e\<in>set before. read_text f e = UnicodeDecodeError"
    and "read_text f enc = Decoded content"
  shows "try_encodings f (before @ enc # after) result =
           (result\<lparr>doc_content := sanitize_text content,
                   doc_metadata :=
                     dict_set (doc_metadata result) (u ''encoding'') (JStr (encoding_name enc))\<rparr>,
            None)"
  using assms by (induction before) simp_all

text \<open>
  C10. For an existing regular \<open>.txt\<close> file that decodes under one of the attempted
  encodings, every encoding tried before it having failed to decode, and whose decoded
  text sanitizes to the empty string, \<open>extract_text_from_txt\<close> returns empty content, the
  encoding in the metadata, and the error \<open>Failed to decode text file\<close>.
\<close>

theorem extract_text_from_txt_blank:
  assumes "file_exists f" and "file_is_file f" and "lower (file_suffix f) = u ''.txt''"
    and "[UTF8, Latin1, CP1252] = before @ enc # after"
    and "\<forall>e\<in>set before. read_text f e = UnicodeDecodeError"
    and "read_text f enc = Decoded content"
    and "sanitize_text content = []"
  shows "extract_text_from_txt f =
           \<lparr>doc_filename = file_name f, doc_content = [],
            doc_metadata = [(u ''encoding'', JStr (encoding_name enc))],
            doc_error = Some (u ''Failed to decode text file'')\<rparr>"
proof -
  have v: "validate_file_path f [u ''.txt'']"
    using assms(1-3) by (simp add: validate_file_path_def)
  have "try_encodings f [UTF8, Latin1, CP1252] (new_document f) =
           ((new_document f)\<lparr>doc_content := sanitize_text content,
                   doc_metadata :=
                     dict_set (doc_metadata (new_document f)) (u ''encoding'')
                       (JStr (encoding_name enc))\<rparr>,
            None)"
    unfolding assms(4) using assms(5,6) by (rule try_encodings_first)
  then show ?thesis
    using v assms(7) by (simp add: extract_text_from_txt_def new_document_def)
qed

text \<open>A file of two blanks and a line break, decoded as UTF-8.\<close>

theorem extract_text_from_txt_blank_witness:
  "extract_text_from_txt blank_txt =
     \<lparr>doc_filename = u ''blank.txt'', doc_content = [],
      doc_metadata = [(u ''encoding'', JStr (u ''utf-8''))],
      doc_error = Some (u ''Failed to decode text file'')\<rparr>"
proof -
  have s: "sanitize_text (u ''  \<newline>'') = []"
    by (simp add: sanitize_text_def str_split_def strip_def isspace_def u_def)
  have l: "[UTF8, Latin1, CP1252] = [] @ UTF8 # [Latin1, CP1252]" by simp
  show ?thesis
    using extract_text_from_txt_blank[of blank_txt "[]" UTF8 "[Latin1, CP1252]" "u ''  \<newline>''"] s
    by (simp add: blank_txt_def)
qed

lemma has_error_pdf: "\<not> has_error (extract_text_from_pdf (Some Pdfplumber) admissions_pdf)"
  by (simp add: has_error_def extract_text_from_pdf_def admissions_pdf_def
      validate_file_path_def new_document_def)

lemma sanitize_admissions:
  "sanitize_text (u ''Deadline: Jan 15. Fee: $75.'') = u ''Deadline: Jan 15. Fee: $75.''"
  by (simp add: sanitize_text_def str_split_def strip_def isspace_def u_def)

lemma has_error_txt: "\<not> has_error (extract_text_from_txt admissions_txt)"
  by (simp add: has_error_def extract_text_from_txt_def admissions_txt_def
      validate_file_path_def new_document_def sanitize_admissions)

text \<open>
  C4. \<open>load_local_data\<close> is claimed to return exactly N documents for N files whose
  extraction succeeds. The documents are keyed by the file stem: in a directory that
  holds \<open>admissions.pdf\<close> and \<open>admissions.txt\<close>, both extracted without error, the second
  document replaces the first, and the result has one document while its summary counts
  two successful files out of two.
\<close>

theorem load_local_data_same_stem:
  "\<not> has_error (extract_text_from_pdf (Some Pdfplumber) admissions_pdf) \<and>
   \<not> has_error (extract_text_from_txt admissions_txt) \<and>
   files_data (load_local_data (Some Pdfplumber) (u ''college_data'')
                 (Directory [admissions_pdf] [admissions_txt])) =
     [(u ''admissions'', extract_text_from_txt admissions_txt)] \<and>
   errors (load_local_data (Some Pdfplumber) (u ''college_data'')
             (Directory [admissions_pdf] [admissions_txt])) = [] \<and>
   total_files (load_local_data (Some Pdfplumber) (u ''college_data'')
             (Directory [admissions_pdf] [admissions_txt])) = 2 \<and>
   summary_successful (load_local_data (Some Pdfplumber) (u ''college_data'')
             (Directory [admissions_pdf] [admissions_txt])) = 2 \<and>
   summary_failed (load_local_data (Some Pdfplumber) (u ''college_data'')
             (Directory [admissions_pdf] [admissions_txt])) = 0"
proof -
  have 1: "lower (file_suffix admissions_pdf) = u ''.pdf''"
    "lower (file_suffix admissions_txt) = u ''.txt''"
    "file_stem admissions_pdf = u ''admissions''" "file_stem admissions_txt = u ''admissions''"
    by (simp_all add: admissions_pdf_def admissions_txt_def)
  have 2: "u ''.txt'' \<noteq> u ''.pdf''" by simp
  show ?thesis
    using has_error_pdf has_error_txt
    by (simp add: load_local_data_def Let_def record_file_def 1 2)
qed

lemma dict_set_keys:
  "map fst (dict_set kvs k v) = (if k \<in> set (map fst kvs) then map fst kvs else map fst kvs @ [k])"
  by (induction kvs k v rule: dict_set.induct) auto

lemma dict_set_key_set: "fst ` set (dict_set kvs k v) = insert k (fst ` set kvs)"
  by (induction kvs k v rule: dict_set.induct) auto

lemma dict_set_distinct:
  "distinct (map fst kvs) \<Longrightarrow> distinct (map fst (dict_set kvs k v))"
  by (simp add: dict_set_keys)

lemma record_file_fields:
  "total_files (record_file f d r) = total_files r"
  "summary_failed (record_file f d r) = summary_failed r + (if has_error d then 1 else 0)"
  "summary_successful (record_file f d r) = summary_successful r + (if has_error d then 0 else 1)"
  "length (errors (record_file f d r)) = length (errors r) + (if has_error d then 1 else 0)"
  "fst ` set (files_data (record_file f d r)) =
     (if has_error d then fst ` set (files_data r)
      else insert (file_stem f) (fst ` set (files_data r)))"
  "distinct (map fst (files_data r)) \<Longrightarrow> distinct (map fst (files_data (record_file f d r)))"
  by (simp_all add: record_file_def dict_set_distinct dict_set_key_set)

lemma load_files_step:
  "load_files lib (f # fs) r =
     (if handled f then load_files lib fs (record_file f (extract_file lib f) r)
      else load_files lib fs r)"
  by (simp add: handled_def extract_file_def)

lemma load_files_total: "total_files (load_files lib fs r) = total_files r"
  by (induction fs arbitrary: r)
     (simp_all add: load_files_step record_file_fields del: load_files.simps(2))

lemma load_files_failed:
  "summary_failed (load_files lib fs r) = summary_failed r + length (filter (failing lib) fs)"
  by (induction fs arbitrary: r)
     (simp_all add: load_files_step record_file_fields failing_def del: load_files.simps(2))

lemma load_files_errors:
  "length (errors (load_files lib fs r)) = length (errors r) + length (filter (failing lib) fs)"
  by (induction fs arbitrary: r)
     (simp_all add: load_files_step record_file_fields failing_def del: load_files.simps(2))

lemma load_files_successful:
  "summary_successful (load_files lib fs r) =
     summary_successful r + length (filter (succeeding lib) fs)"
  by (induction fs arbitrary: r)
     (simp_all add: load_files_step record_file_fields succeeding_def del: load_files.simps(2))

lemma load_files_distinct:
  "distinct (map fst (files_data r)) \<Longrightarrow> distinct (map fst (files_data (load_files lib fs r)))"
  by (induction fs arbitrary: r)
     (simp_all add: load_files_step record_file_fields del: load_files.simps(2))

lemma load_files_keys:
  "fst ` set (files_data (load_files lib fs r)) =
     fst ` set (files_data r) \<union> file_stem ` {f \<in> set fs. succeeding lib f}"
proof (induction fs arbitrary: r)
  case Nil
  then show ?case by simp
next
  case (Cons f fs)
  have split: "{g \<in> set (f # fs). succeeding lib g} =
      (if succeeding lib f then {f} else {}) \<union> {g \<in> set fs. succeeding lib g}"
    by auto
  show ?case
    unfolding load_files_step split
    by (simp add: Cons.IH record_file_fields succeeding_def)
qed

text \<open>
  What holds in general: the totals count the listed files, the errors and the failed
  count the failing files, the successful count the succeeding files, and the documents
  are as many as the distinct stems of the succeeding files.
\<close>

lemma load_local_data_counts:
  assumes "r = load_local_data lib data_dir (Directory pdfs txts)"
  shows "total_files r = length (pdfs @ txts)"
    and "summary_failed r = length (filter (failing lib) (pdfs @ txts))"
    and "length (errors r) = length (filter (failing lib) (pdfs @ txts))"
    and "summary_successful r = length (filter (succeeding lib) (pdfs @ txts))"
    and "length (files_data r) = card (file_stem ` {f \<in> set (pdfs @ txts). succeeding lib f})"
proof -
  let ?r0 = "\<lparr>files_data = [], errors = [], total_files = length (pdfs @ txts),
              summary_successful = 0, summary_failed = 0\<rparr>"
  have r: "r = load_files lib (pdfs @ txts) ?r0"
    using assms by (simp add: load_local_data_def Let_def)
  show "total_files r = length (pdfs @ txts)"
    unfolding r load_files_total by simp
  show "summary_failed r = length (filter (failing lib) (pdfs @ txts))"
    unfolding r load_files_failed by simp
  show "length (errors r) = length (filter (failing lib) (pdfs @ txts))"
    unfolding r load_files_errors by simp
  show "summary_successful r = length (filter (succeeding lib) (pdfs @ txts))"
    unfolding r load_files_successful by simp
  have d: "distinct (map fst (files_data r))"
    unfolding r by (rule load_files_distinct) simp
  have "set (map fst (files_data r)) = file_stem ` {f \<in> set (pdfs @ txts). succeeding lib f}"
    unfolding r using load_files_keys[of lib "pdfs @ txts" ?r0] by simp
  then have "card (file_stem ` {f \<in> set (pdfs @ txts). succeeding lib f})
      = length (map fst (files_data r))"
    using distinct_card[OF d] by simp
  then show "length (files_data r) = card (file_stem ` {f \<in> set (pdfs @ txts). succeeding lib f})"
    by simp
qed

section \<open>Properties of the division and of the age of an entry\<close>

text \<open>
  \<open>bit_length\<close> and \<open>floor_log2\<close> give the binary exponent of a quotient, and rounding to
  the nearest integer is monotone.
\<close>

lemma bit_length_bounds: "0 < n \<Longrightarrow> 2 ^ bit_length n \<le> 2 * n \<and> n < 2 ^ bit_length n"
proof (induction n rule: bit_length.induct)
  case (1 n)
  show ?case
  proof (cases "n div 2 = 0")
    case True
    with 1(2) have "n = 1" by presburger
    then show ?thesis by (simp add: bit_length.simps)
  next
    case False
    then have "0 < n div 2" by simp
    with 1 have ih: "2 ^ bit_length (n div 2) \<le> 2 * (n div 2)" "n div 2 < 2 ^ bit_length (n div 2)"
      by auto
    have bl: "bit_length n = Suc (bit_length (n div 2))"
      using 1(2) by (subst bit_length.simps) simp
    from ih show ?thesis unfolding bl by (simp; presburger)
  qed
qed

lemma pow2_pos [simp]: "0 < pow2 k"
  by (simp add: pow2_def)

lemma pow2_nonneg [simp]: "0 \<le> pow2 k"
  by (simp add: pow2_def)

lemma pow2_Suc: "pow2 (k + 1) = 2 * pow2 k"
proof (cases "0 \<le> k")
  case True
  then show ?thesis by (simp add: pow2_def nat_add_distrib)
next
  case False
  then have "nat (- k) = Suc (nat (- (k + 1)))" by simp
  with False show ?thesis by (cases "k = -1") (simp_all add: pow2_def)
qed

lemma pow2_diff: "pow2 (int m - int n) = 2 ^ m / 2 ^ n"
proof (induction m)
  case 0
  show ?case by (cases n) (simp_all add: pow2_def nat_add_distrib)
next
  case (Suc m)
  have "pow2 (int (Suc m) - int n) = pow2 ((int m - int n) + 1)" by (simp add: algebra_simps)
  then show ?case using Suc by (simp add: pow2_Suc)
qed

lemma pow2_mono: "i \<le> j \<Longrightarrow> pow2 i \<le> pow2 j"
proof -
  assume "i \<le> j"
  then obtain n where j: "j = i + int n" by (metis nonneg_int_cases zle_iff_zadd)
  have "pow2 i \<le> pow2 (i + int n)"
  proof (induction n)
    case 0 show ?case by simp
  next
    case (Suc n)
    have "pow2 (i + int (Suc n)) = 2 * pow2 (i + int n)"
      using pow2_Suc[of "i + int n"] by (simp add: algebra_simps)
    with Suc show ?case using pow2_pos[of "i + int n"] by linarith
  qed
  with j show ?thesis by simp
qed

lemma pow2_nat: "pow2 (int n) = 2 ^ n"
  by (simp add: pow2_def)

lemma floor_log2_bounds:
  assumes "0 < a" "0 < b"
  shows "pow2 (floor_log2 a b) * of_nat b \<le> of_nat a"
    and "of_nat a < pow2 (floor_log2 a b + 1) * of_nat b"
proof -
  let ?d = "int (bit_length a) - int (bit_length b)"
  from bit_length_bounds[OF assms(1)] have a: "(2::rat) ^ bit_length a \<le> 2 * of_nat a" "(of_nat a :: rat) < 2 ^ bit_length a"
    by (metis of_nat_le_iff of_nat_mult of_nat_numeral of_nat_power, metis of_nat_less_iff of_nat_numeral of_nat_power)
  from bit_length_bounds[OF assms(2)] have b: "(2::rat) ^ bit_length b \<le> 2 * of_nat b" "(of_nat b :: rat) < 2 ^ bit_length b"
    by (metis of_nat_le_iff of_nat_mult of_nat_numeral of_nat_power, metis of_nat_less_iff of_nat_numeral of_nat_power)
  have bpos: "(0::rat) < of_nat b" using assms by simp
  have d: "pow2 ?d = 2 ^ bit_length a / 2 ^ bit_length b" by (rule pow2_diff)
  have d1: "pow2 (?d + 1) = 2 * pow2 ?d" by (rule pow2_Suc)
  have dm: "pow2 ?d = 2 * pow2 (?d - 1)" using pow2_Suc[of "?d - 1"] by simp
  have low: "pow2 (?d - 1) * of_nat b \<le> of_nat a"
  proof -
    have "pow2 ?d * of_nat b \<le> 2 ^ bit_length a"
      unfolding d using b(2) by (simp add: field_simps)
    also have "\<dots> \<le> 2 * of_nat a" by (rule a(1))
    finally show ?thesis using dm by simp
  qed
  have up: "of_nat a < pow2 (?d + 1) * of_nat b"
  proof -
    have "(2::rat) ^ bit_length a \<le> pow2 ?d * (2 * of_nat b)"
      unfolding d using b(1) by (simp add: field_simps)
    with a(2) have "(of_nat a :: rat) < pow2 ?d * (2 * of_nat b)" by (rule less_le_trans)
    then show ?thesis unfolding d1 by (simp add: mult.assoc mult.left_commute)
  qed
  show "pow2 (floor_log2 a b) * of_nat b \<le> of_nat a"
    using low by (simp add: floor_log2_def Let_def)
  show "of_nat a < pow2 (floor_log2 a b + 1) * of_nat b"
    using up by (auto simp add: floor_log2_def Let_def not_le)
qed

lemma round_half_even_le: "x \<le> of_int n \<Longrightarrow> round_half_even x \<le> n"
proof -
  assume a: "x \<le> of_int n"
  then have f: "\<lfloor>x\<rfloor> \<le> n" by (simp add: floor_le_iff)
  show ?thesis
  proof (cases "\<lfloor>x\<rfloor> = n")
    case True
    then have "of_int n \<le> x" by (metis of_int_floor_le)
    with a have "x = of_int n" by simp
    then show ?thesis by (simp add: round_half_even_def)
  next
    case False
    with f have "\<lfloor>x\<rfloor> + 1 \<le> n" by simp
    then show ?thesis by (simp add: round_half_even_def Let_def)
  qed
qed

lemma round_half_even_ge: "of_int n \<le> x \<Longrightarrow> n \<le> round_half_even x"
proof -
  assume "of_int n \<le> x"
  then have "n \<le> \<lfloor>x\<rfloor>" by (simp add: le_floor_iff)
  then show ?thesis by (simp add: round_half_even_def Let_def)
qed

lemma round_half_even_gt: "of_int n + 1 / 2 < x \<Longrightarrow> n < round_half_even x"
proof -
  assume a: "of_int n + 1 / 2 < x"
  then have f: "n \<le> \<lfloor>x\<rfloor>" by (simp add: le_floor_iff)
  show ?thesis
  proof (cases "\<lfloor>x\<rfloor> = n")
    case True
    with a have "1 / 2 < x - of_int \<lfloor>x\<rfloor>" by simp
    then show ?thesis using True by (simp add: round_half_even_def Let_def)
  next
    case False
    with f have "n < \<lfloor>x\<rfloor>" by simp
    then show ?thesis by (simp add: round_half_even_def Let_def)
  qed
qed


lemma pow2_add_nat: "pow2 (k + int n) = pow2 k * 2 ^ n"
proof (induction n)
  case 0 show ?case by simp
next
  case (Suc n)
  have "pow2 (k + int (Suc n)) = 2 * pow2 (k + int n)"
    using pow2_Suc[of "k + int n"] by (simp add: algebra_simps)
  with Suc show ?case by simp
qed

lemma pow2_inverse: "k \<le> 0 \<Longrightarrow> pow2 k * 2 ^ nat (- k) = 1"
  using pow2_add_nat[of k "nat (- k)"] by (simp add: pow2_def)

lemma total_seconds_nonpositive:
  assumes "d \<le> 0" and "- (2 ^ 60) < d"
  shows "\<exists>age. total_seconds d = Some age \<and> age \<le> 0"
proof (cases "d = 0")
  case True
  then show ?thesis by (simp add: total_seconds_def int_truediv_def)
next
  case False
  with assms have neg: "d < 0" by simp
  let ?q = "(of_int d :: rat) / of_int 1000000"
  have q: "?q < 0" using neg by (simp add: field_simps)
  have "\<bar>?q\<bar> \<le> \<bar>of_int d\<bar>" by (simp add: field_simps)
  also have "\<dots> < 2 ^ 60" using assms neg by (simp add: abs_if)
  finally have small: "\<not> 2 ^ 1024 - 2 ^ 970 \<le> \<bar>?q\<bar>" by simp
  let ?e = "max (floor_log2 (nat \<bar>d\<bar>) (nat \<bar>1000000\<bar>)) (- 1022)"
  have r: "0 \<le> round_half_even (\<bar>?q\<bar> / pow2 (?e - 52))"
    by (rule round_half_even_ge) simp
  have "total_seconds d = Some (sgn ?q * of_int (round_half_even (\<bar>?q\<bar> / pow2 (?e - 52))) * pow2 (?e - 52))"
    using q small unfolding total_seconds_def int_truediv_def Let_def by (simp del: of_int_numeral)
  moreover have "sgn ?q * of_int (round_half_even (\<bar>?q\<bar> / pow2 (?e - 52))) * pow2 (?e - 52) \<le> 0"
  proof -
    have "sgn ?q = - 1" using q by (simp add: sgn_if)
    moreover have "0 \<le> of_int (round_half_even (\<bar>?q\<bar> / pow2 (?e - 52))) * pow2 (?e - 52)"
      using r pow2_pos[of "?e - 52"] by (simp add: less_imp_le)
    ultimately show ?thesis by (simp add: mult.assoc)
  qed
  ultimately show ?thesis by blast
qed

lemma total_seconds_positive:
  assumes d: "0 < d" "d < 2 ^ 60" and ttl: "0 \<le> ttl" "ttl < 2 ^ 34"
  shows "\<exists>age. total_seconds d = Some age \<and> (of_int ttl < age \<longleftrightarrow> ttl * 1000000 < d)"
proof -
  let ?q = "(of_int d :: rat) / 1000000"
  have q: "0 < ?q" using d by simp
  have dr: "(of_int d :: rat) < 2 ^ 60"
    using d(2) by (metis of_int_less_iff of_int_numeral of_int_power)
  have "\<bar>?q\<bar> \<le> of_int d" using d by (simp add: field_simps)
  with dr have small: "\<not> 2 ^ 1024 - 2 ^ 970 \<le> \<bar>?q\<bar>" by simp
  let ?e0 = "floor_log2 (nat d) 1000000"
  have fl: "pow2 ?e0 * 1000000 \<le> of_int d" "of_int d < pow2 (?e0 + 1) * 1000000"
    using floor_log2_bounds[of "nat d" 1000000] d by simp_all
  have lo: "- 1022 \<le> ?e0"
  proof (rule ccontr)
    assume "\<not> - 1022 \<le> ?e0"
    then have "?e0 + 1 \<le> 0" by simp
    then have "pow2 (?e0 + 1) \<le> pow2 0" by (rule pow2_mono)
    then have "pow2 (?e0 + 1) \<le> 1" by (simp add: pow2_def)
    then have "pow2 (?e0 + 1) * 1000000 \<le> 1000000" by simp
    moreover have "- 1022 > ?e0" using \<open>\<not> - 1022 \<le> ?e0\<close> by simp
    then have "?e0 + 1 \<le> - 20" by simp
    then have "pow2 (?e0 + 1) \<le> pow2 (- 20)" by (rule pow2_mono)
    then have "pow2 (?e0 + 1) * 1000000 < 1" by (simp add: pow2_def)
    moreover have "(1::rat) \<le> of_int d" using d(1) by (metis int_one_le_iff_zero_less of_int_1 of_int_le_iff)
    ultimately show False using fl(2) by linarith
  qed
  then have e: "max ?e0 (- 1022) = ?e0" by simp
  let ?ulp = "pow2 (?e0 - 52)"
  let ?x = "?q / ?ulp"
  let ?age = "of_int (round_half_even ?x) * ?ulp"
  have ts: "total_seconds d = Some ?age"
    using q small e d(1) unfolding total_seconds_def int_truediv_def Let_def
    by (simp add: sgn_if)
  have qlow: "pow2 ?e0 \<le> ?q" using fl(1) by (simp add: field_simps)
  have "(of_int ttl < ?age) = (ttl * 1000000 < d)"
  proof (cases "34 \<le> ?e0")
    case True
    have p: "pow2 ?e0 = ?ulp * 2 ^ 52" using pow2_add_nat[of "?e0 - 52" 52] by simp
    have "of_int (2 ^ 52) \<le> ?x"
    proof -
      have "?ulp * 2 ^ 52 \<le> ?q" using qlow p by simp
      then show ?thesis using pow2_pos[of "?e0 - 52"] by (simp add: field_simps)
    qed
    then have "2 ^ 52 \<le> round_half_even ?x" by (rule round_half_even_ge)
    then have "(2::rat) ^ 52 \<le> of_int (round_half_even ?x)"
      by (metis of_int_le_iff of_int_numeral of_int_power)
    then have "2 ^ 52 * ?ulp \<le> ?age" using pow2_pos[of "?e0 - 52"] by simp
    then have "pow2 ?e0 \<le> ?age" using p by (simp add: mult.commute)
    moreover have "pow2 34 \<le> pow2 ?e0" using True by (rule pow2_mono)
    moreover have "(of_int ttl :: rat) < pow2 34"
      using ttl(2) by (simp add: pow2_def)
    ultimately have 1: "of_int ttl < ?age" by linarith
    have "(of_int ttl :: rat) < ?q" using qlow \<open>pow2 34 \<le> pow2 ?e0\<close> \<open>(of_int ttl :: rat) < pow2 34\<close> by linarith
    then have "(of_int (ttl * 1000000) :: rat) < of_int d" by (simp add: field_simps)
    then have "ttl * 1000000 < d" by (simp only: of_int_less_iff)
    with 1 show ?thesis by simp
  next
    case False
    then have le: "?e0 - 52 \<le> - 19" by simp
    define M :: int where "M = 2 ^ nat (- (?e0 - 52))"
    have M: "?ulp * of_int M = 1" unfolding M_def using pow2_inverse[of "?e0 - 52"] le by simp
    have Mpos: "0 < M" by (simp add: M_def)
    have ulp: "?ulp = 1 / of_int M" using M Mpos by (simp add: field_simps)
    have Mbig: "2 ^ 19 \<le> M"
    proof -
      have "19 \<le> nat (- (?e0 - 52))" using le by simp
      then show ?thesis unfolding M_def by (metis one_le_numeral power_increasing)
    qed
    have x: "?x = ?q * of_int M" by (simp add: ulp)
    have age: "?age = of_int (round_half_even ?x) / of_int M" by (simp add: ulp)
    show ?thesis
    proof (cases "ttl * 1000000 < d")
      case True
      then have "ttl * 1000000 + 1 \<le> d" by simp
      then have "(of_int (ttl * 1000000 + 1) :: rat) \<le> of_int d" by (simp only: of_int_le_iff)
      then have "of_int ttl + 1 / 1000000 \<le> ?q" by (simp add: field_simps)
      then have "(of_int ttl + 1 / 1000000) * of_int M \<le> ?q * of_int M"
        using Mpos by (simp add: mult_right_mono)
      moreover have "(1 / 2 :: rat) < 1 / 1000000 * of_int M"
      proof -
        have "(2 ^ 19 :: rat) \<le> of_int M" using Mbig by (metis of_int_le_iff of_int_numeral of_int_power)
        then show ?thesis by simp
      qed
      ultimately have "of_int (ttl * M) + 1 / 2 < ?x" unfolding x by (simp add: algebra_simps)
      then have "ttl * M < round_half_even ?x" by (rule round_half_even_gt)
      then have "(of_int (ttl * M) :: rat) < of_int (round_half_even ?x)" by (simp only: of_int_less_iff)
      then have "of_int ttl < ?age" unfolding age using Mpos by (simp add: field_simps)
      with True show ?thesis by simp
    next
      case False
      then have "d \<le> ttl * 1000000" by simp
      then have "(of_int d :: rat) \<le> of_int (ttl * 1000000)" by (simp only: of_int_le_iff)
      then have "?q \<le> of_int ttl" by (simp add: field_simps)
      then have "?q * of_int M \<le> of_int ttl * of_int M" using Mpos by (simp add: mult_right_mono)
      then have "?x \<le> of_int (ttl * M)" unfolding x by simp
      then have "round_half_even ?x \<le> ttl * M" by (rule round_half_even_le)
      then have "(of_int (round_half_even ?x) :: rat) \<le> of_int (ttl * M)" by (simp only: of_int_le_iff)
      then have "?age \<le> of_int ttl" unfolding age using Mpos by (simp add: field_simps)
      with False show ?thesis by simp
    qed
  qed
  with ts show ?thesis by blast
qed

lemma total_seconds_compare:
  assumes "0 \<le> ttl" "ttl < 2 ^ 34" "- (2 ^ 60) < d" "d < 2 ^ 60"
  shows "\<exists>age. total_seconds d = Some age \<and> (of_int ttl < age \<longleftrightarrow> ttl * 1000000 < d)"
proof (cases "0 < d")
  case True
  then show ?thesis using assms by (intro total_seconds_positive)
next
  case False
  then have d: "d \<le> 0" by simp
  from total_seconds_nonpositive[OF d assms(3)] obtain age where
    a: "total_seconds d = Some age" "age \<le> 0" by blast
  have "\<not> of_int ttl < age" using a(2) assms(1) by (simp add: not_less)
  moreover have "\<not> ttl * 1000000 < d" using d assms(1) by (simp add: not_less)
  ultimately show ?thesis using a(1) by simp
qed

section \<open>Properties of the JSON cache\<close>

lemma timestamp_lookup [simp]:
  "map_of [(u ''timestamp'', a), (u ''data'', b)] (u ''timestamp'') = Some a"
  "map_of [(u ''timestamp'', a), (u ''data'', b)] (u ''data'') = Some b"
  by simp_all

lemma dict_set_new: "k \<notin> fst ` set kvs \<Longrightarrow> dict_set kvs k v = kvs @ [(k, v)]"
  by (induction kvs k v rule: dict_set.induct) auto

lemma foldl_dict_set_distinct:
  "distinct (map fst (acc @ kvs)) \<Longrightarrow>
     foldl (\<lambda>d (k, v). dict_set d k v) acc kvs = acc @ kvs"
proof (induction kvs arbitrary: acc)
  case Nil
  show ?case by simp
next
  case (Cons kv kvs)
  obtain k v where kv: "kv = (k, v)" by (cases kv)
  from Cons.prems have "k \<notin> fst ` set acc" by (auto simp add: kv)
  then have s: "dict_set acc k v = acc @ [(k, v)]" by (rule dict_set_new)
  from Cons.prems have "distinct (map fst ((acc @ [(k, v)]) @ kvs))" by (simp add: kv)
  from Cons.IH[OF this] show ?case by (simp add: kv s)
qed

lemma dict_of_pairs_distinct: "distinct (map fst kvs) \<Longrightarrow> dict_of_pairs kvs = kvs"
  using foldl_dict_set_distinct[of "[]" kvs] by (simp add: dict_of_pairs_def)

lemma is_KStr_key_text: "is_KStr k \<Longrightarrow> KStr (key_text k) = k"
  by (cases k) simp_all

text \<open>A payload that is a JSON value is read back as it was written.\<close>

lemma json_native_reload: "json_native v \<Longrightarrow> of_json (json_reload v) = v"
proof (induction v)
  case (PList xs)
  then have "map (of_json \<circ> json_reload) xs = xs"
    by (intro map_idI) (simp add: list_all_iff)
  then show ?case by simp
next
  case (PDict kvs)
  from PDict.prems have d: "distinct (map fst kvs)"
    and ks: "\<And>k v. (k, v) \<in> set kvs \<Longrightarrow> is_KStr k \<and> json_native v"
    by (auto simp add: list_all_iff)
  let ?g = "\<lambda>(k, v). (key_text k, json_reload v)"
  have inj: "inj_on key_text (set (map fst kvs))"
  proof (rule inj_onI)
    fix a b
    assume "a \<in> set (map fst kvs)" "b \<in> set (map fst kvs)" "key_text a = key_text b"
    moreover from this ks have "is_KStr a" "is_KStr b" by auto
    ultimately show "a = b" by (metis is_KStr_key_text)
  qed
  have "map fst (map ?g kvs) = map key_text (map fst kvs)"
    by (induction kvs) auto
  moreover have "distinct (map key_text (map fst kvs))"
    using d inj distinct_map[of key_text "map fst kvs"] by blast
  ultimately have "distinct (map fst (map ?g kvs))" by (simp only:)
  then have r: "json_reload (PDict kvs) = JObj (map ?g kvs)"
    by (simp add: dict_of_pairs_distinct)
  have "map ((\<lambda>(k, v). (KStr k, of_json v)) \<circ> ?g) kvs = kvs"
  proof (rule map_idI)
    fix kv
    assume m: "kv \<in> set kvs"
    obtain k v where kv: "kv = (k, v)" by (cases kv)
    from m ks kv have "is_KStr k" "json_native v" by auto
    moreover from m kv have "json_native v \<Longrightarrow> of_json (json_reload v) = v"
      using PDict.IH[of kv v] by simp
    ultimately show "((\<lambda>(k, v). (KStr k, of_json v)) \<circ> ?g) kv = kv"
      by (simp add: kv is_KStr_key_text)
  qed
  then show ?case using r by simp
qed simp_all

lemma saved_document:
  "json_reload (PDict [(KStr (u ''timestamp''), PStr ts), (KStr (u ''data''), payload)]) =
     JObj [(u ''timestamp'', JStr ts), (u ''data'', json_reload payload)]"
  by (simp add: dict_of_pairs_def)

lemma cache_expired_saved:
  assumes "fromisoformat lib (isoformat lib r0) = Inr (Naive r0)"
  shows "cache_expired lib ttl r1 (JObj [(u ''timestamp'', JStr (isoformat lib r0)), (u ''data'', d)])
           = (case total_seconds (r1 - r0) of
                None \<Rightarrow> Inl OverflowError
              | Some age \<Rightarrow> Inr (of_int ttl < age))"
  using assms by (simp add: cache_expired_def)

lemma cache_expired_no_timestamp:
  "u ''timestamp'' \<notin> set (map fst kvs) \<Longrightarrow> cache_expired lib ttl now (JObj kvs) = Inr False"
  by (simp add: cache_expired_def)

lemma save_json_cache_True:
  assumes "save_json_cache lib fs r0 attempt file payload = (fs', True)"
  shows "fs' = fs(file \<mapsto> JsonDoc (JObj [(u ''timestamp'', JStr (isoformat lib r0)),
                                          (u ''data'', json_reload payload)]))"
  using assms by (auto simp add: save_json_cache_def Let_def dict_of_pairs_def split: if_splits)

lemma load_after_save:
  assumes "save_json_cache lib fs r0 attempt file payload = (fs', True)"
    and "fromisoformat lib (isoformat lib r0) = Inr (Naive r0)"
  shows "load_json_cache lib ttl fs' r1 file =
           (case total_seconds (r1 - r0) of
              None \<Rightarrow> None
            | Some age \<Rightarrow>
                if of_int ttl < age then None
                else Some (JObj [(u ''timestamp'', JStr (isoformat lib r0)),
                                 (u ''data'', json_reload payload)]))"
  using cache_expired_saved[OF assms(2), of ttl r1 "json_reload payload"]
  by (simp add: load_json_cache_def save_json_cache_True[OF assms(1)] split: option.splits)

lemma load_after_save_bounded:
  assumes "save_json_cache lib fs r0 attempt file payload = (fs', True)"
    and "fromisoformat lib (isoformat lib r0) = Inr (Naive r0)"
    and "0 \<le> ttl" "ttl < 2 ^ 34" "\<bar>r1 - r0\<bar> < 2 ^ 60"
  shows "load_json_cache lib ttl fs' r1 file =
           (if r1 - r0 \<le> ttl * 1000000
            then Some (JObj [(u ''timestamp'', JStr (isoformat lib r0)),
                             (u ''data'', json_reload payload)])
            else None)"
proof -
  from assms(5) have "- (2 ^ 60) < r1 - r0" "r1 - r0 < 2 ^ 60" by (simp_all add: abs_less_iff)
  from total_seconds_compare[OF assms(3,4) this] obtain age where
    "total_seconds (r1 - r0) = Some age" "of_int ttl < age \<longleftrightarrow> ttl * 1000000 < r1 - r0"
    by blast
  then show ?thesis using load_after_save[OF assms(1,2), of ttl r1] by (simp add: not_less)
qed

lemma load_bad_timestamp:
  assumes "fs file = Some (JsonDoc (JObj kvs))" and "map_of kvs (u ''timestamp'') = Some v"
    and "\<And>s t. v = JStr s \<Longrightarrow> fromisoformat lib s \<noteq> Inr (Naive t)"
  shows "load_json_cache lib ttl fs now file = None"
proof -
  from assms(2) have m: "u ''timestamp'' \<in> fst ` set kvs"
    by (metis map_of_eq_None_iff option.distinct(1))
  have "\<exists>e. cache_expired lib ttl now (JObj kvs) = Inl e"
  proof (cases v)
    case (JStr s)
    show ?thesis
    proof (cases "fromisoformat lib s")
      case (Inl e)
      with JStr m assms(2) show ?thesis by (simp add: cache_expired_def)
    next
      case (Inr st)
      with assms(3)[OF JStr] obtain t offset where "st = Aware t offset" by (cases st) auto
      with Inr JStr m assms(2) show ?thesis by (simp add: cache_expired_def)
    qed
  qed (use m assms(2) in \<open>simp_all add: cache_expired_def\<close>)
  with assms(1) show ?thesis by (auto simp add: load_json_cache_def)
qed

text \<open>
  C3 (as amended). After a \<open>save_json_cache\<close> that returned \<open>True\<close>, made when the local
  clock read \<open>datetime_now tz t0\<close>, and with a library that reads its own ISO form back,
  the file exists and \<open>load_json_cache\<close>, called when the clock reads \<open>datetime_now tz t1\<close>,
  returns the entry, the dict of the timestamp and of the payload as JSON gives it back,
  if the age that the code computes from the two readings is not greater than the TTL,
  and nothing if it is greater. For a TTL from 0 to below \<open>2 ^ 34\<close> seconds and readings of
  a \<open>datetime\<close> clock that is: the entry if the clock reads at most TTL seconds more than at
  the save, and nothing if it reads more; and if the zone has the same UTC offset at both
  instants: the entry if at most TTL seconds have passed, and nothing if more have. A
  payload that is a JSON value is given back as it was. \<open>load_json_cache\<close> returns nothing
  for a path that does not exist, for a file that cannot be read or is not JSON, for a
  document that is \<open>null\<close>, a boolean or a number, and for an object whose timestamp is
  anything but a string that the library reads as a \<open>datetime\<close> without UTC offset. An
  object without a \<open>timestamp\<close> member is returned as it is, whatever the time.
  \<open>load_json_cache\<close> raises in no case: it is a function that returns a document or
  nothing.
\<close>

theorem json_cache_put_get:
  "(save_json_cache lib fs (datetime_now tz t0) attempt path payload = (fs', True) \<longrightarrow>
    fromisoformat lib (isoformat lib (datetime_now tz t0)) = Inr (Naive (datetime_now tz t0)) \<longrightarrow>
      fs' path \<noteq> None \<and>
      load_json_cache lib ttl fs' (datetime_now tz t1) path =
        (case total_seconds (datetime_now tz t1 - datetime_now tz t0) of
           None \<Rightarrow> None
         | Some age \<Rightarrow>
             if of_int ttl < age then None
             else Some (JObj [(u ''timestamp'', JStr (isoformat lib (datetime_now tz t0))),
                              (u ''data'', json_reload payload)])) \<and>
      (0 \<le> ttl \<and> ttl < 2 ^ 34 \<and> \<bar>datetime_now tz t1 - datetime_now tz t0\<bar> < 2 ^ 60 \<longrightarrow>
         load_json_cache lib ttl fs' (datetime_now tz t1) path =
           (if datetime_now tz t1 - datetime_now tz t0 \<le> ttl * 1000000
            then Some (JObj [(u ''timestamp'', JStr (isoformat lib (datetime_now tz t0))),
                             (u ''data'', json_reload payload)])
            else None)) \<and>
      (0 \<le> ttl \<and> ttl < 2 ^ 34 \<and> \<bar>t1 - t0\<bar> < 2 ^ 60 \<and> tz t1 = tz t0 \<longrightarrow>
         load_json_cache lib ttl fs' (datetime_now tz t1) path =
           (if t1 - t0 \<le> ttl * 1000000
            then Some (JObj [(u ''timestamp'', JStr (isoformat lib (datetime_now tz t0))),
                             (u ''data'', json_reload payload)])
            else None)) \<and>
      (json_native payload \<longrightarrow> of_json (json_reload payload) = payload)) \<and>
   (fs path = None \<longrightarrow> load_json_cache lib ttl fs now path = None) \<and>
   (fs path = Some (Unreadable e) \<longrightarrow> load_json_cache lib ttl fs now path = None) \<and>
   (fs path = Some (NotJson e) \<longrightarrow> load_json_cache lib ttl fs now path = None) \<and>
   (fs path = Some (JsonDoc JNull) \<or> fs path = Some (JsonDoc (JBool b)) \<or>
    fs path = Some (JsonDoc (JInt n)) \<longrightarrow> load_json_cache lib ttl fs now path = None) \<and>
   (fs path = Some (JsonDoc (JObj kvs)) \<longrightarrow> map_of kvs (u ''timestamp'') = Some v \<longrightarrow>
      (\<forall>s t. v = JStr s \<longrightarrow> fromisoformat lib s \<noteq> Inr (Naive t)) \<longrightarrow>
      load_json_cache lib ttl fs now path = None) \<and>
   (fs path = Some (JsonDoc (JObj kvs)) \<longrightarrow> u ''timestamp'' \<notin> set (map fst kvs) \<longrightarrow>
      load_json_cache lib ttl fs now path = Some (JObj kvs))"
proof (intro conjI impI)
  let ?r0 = "datetime_now tz t0" and ?r1 = "datetime_now tz t1"
  let ?entry = "JObj [(u ''timestamp'', JStr (isoformat lib ?r0)), (u ''data'', json_reload payload)]"
  { assume sv: "save_json_cache lib fs ?r0 attempt path payload = (fs', True)"
      and rt: "fromisoformat lib (isoformat lib ?r0) = Inr (Naive ?r0)"
    show "fs' path \<noteq> None" by (simp add: save_json_cache_True[OF sv])
    show "load_json_cache lib ttl fs' ?r1 path =
        (case total_seconds (?r1 - ?r0) of
           None \<Rightarrow> None
         | Some age \<Rightarrow> if of_int ttl < age then None else Some ?entry)"
      by (rule load_after_save[OF sv rt])
    { assume "0 \<le> ttl \<and> ttl < 2 ^ 34 \<and> \<bar>?r1 - ?r0\<bar> < 2 ^ 60"
      then show "load_json_cache lib ttl fs' ?r1 path =
          (if ?r1 - ?r0 \<le> ttl * 1000000 then Some ?entry else None)"
        using load_after_save_bounded[OF sv rt, of ttl ?r1] by simp }
    { assume a: "0 \<le> ttl \<and> ttl < 2 ^ 34 \<and> \<bar>t1 - t0\<bar> < 2 ^ 60 \<and> tz t1 = tz t0"
      then have "?r1 - ?r0 = t1 - t0" by (simp add: datetime_now_def)
      with a show "load_json_cache lib ttl fs' ?r1 path =
          (if t1 - t0 \<le> ttl * 1000000 then Some ?entry else None)"
        using load_after_save_bounded[OF sv rt, of ttl ?r1] by simp } }
  { assume "json_native payload"
    then show "of_json (json_reload payload) = payload" by (rule json_native_reload) }
next
  assume "fs path = None"
  then show "load_json_cache lib ttl fs now path = None" by (simp add: load_json_cache_def)
next
  assume "fs path = Some (Unreadable e)"
  then show "load_json_cache lib ttl fs now path = None" by (simp add: load_json_cache_def)
next
  assume "fs path = Some (NotJson e)"
  then show "load_json_cache lib ttl fs now path = None" by (simp add: load_json_cache_def)
next
  assume "fs path = Some (JsonDoc JNull) \<or> fs path = Some (JsonDoc (JBool b)) \<or>
    fs path = Some (JsonDoc (JInt n))"
  then show "load_json_cache lib ttl fs now path = None"
    by (auto simp add: load_json_cache_def cache_expired_def)
next
  assume a: "fs path = Some (JsonDoc (JObj kvs))" "map_of kvs (u ''timestamp'') = Some v"
    "\<forall>s t. v = JStr s \<longrightarrow> fromisoformat lib s \<noteq> Inr (Naive t)"
  show "load_json_cache lib ttl fs now path = None"
    by (rule load_bad_timestamp[of fs path kvs v lib, OF a(1) a(2)]) (use a(3) in auto)
next
  assume "fs path = Some (JsonDoc (JObj kvs))" "u ''timestamp'' \<notin> set (map fst kvs)"
  then show "load_json_cache lib ttl fs now path = Some (JObj kvs)"
    by (simp add: load_json_cache_def cache_expired_no_timestamp)
qed

lemma digits_value_append:
  "digits_value (xs @ ys) acc =
     (case digits_value xs acc of None \<Rightarrow> None | Some a \<Rightarrow> digits_value ys a)"
  by (induction xs arbitrary: acc) simp_all

lemma digits_value_str_nat: "digits_value (str_nat n) 0 = Some n"
proof (induction n rule: str_nat.induct)
  case (1 n)
  show ?case
  proof (cases "n < 10")
    case True
    then show ?thesis by (subst str_nat.simps) simp
  next
    case False
    with 1 have "digits_value (str_nat (n div 10)) 0 = Some (n div 10)" by simp
    with False show ?thesis by (subst str_nat.simps) (simp add: digits_value_append)
  qed
qed

lemma str_nat_nonempty: "str_nat n \<noteq> []"
  by (subst str_nat.simps) simp

lemma utf8_encodable_str_nat: "utf8_encodable (str_nat n)"
proof (induction n rule: str_nat.induct)
  case (1 n)
  show ?case
  proof (cases "n < 10")
    case True
    then show ?thesis by (subst str_nat.simps) (simp add: utf8_encodable_def)
  next
    case False
    with 1 have "utf8_encodable (str_nat (n div 10))" by simp
    moreover have "n mod 10 < 55248" using mod_less_divisor[of 10 n] by linarith
    ultimately show ?thesis using False
      by (subst str_nat.simps) (simp add: utf8_encodable_def)
  qed
qed

lemma decimal_clock_reads_back:
  "0 \<le> r \<Longrightarrow> fromisoformat decimal_clock (isoformat decimal_clock r) = Inr (Naive r)"
  by (simp add: decimal_clock_def decimal_fromisoformat_def str_nat_nonempty digits_value_str_nat)

lemma decimal_clock_yesterday:
  "fromisoformat decimal_clock (u ''yesterday'') \<noteq> Inr (Naive t)"
  by (simp add: decimal_clock_def decimal_fromisoformat_def u_def)

lemma decimal_clock_zoned:
  "fromisoformat decimal_clock (u ''5000000Z'') \<noteq> Inr (Naive t)"
  by (simp add: decimal_clock_def decimal_fromisoformat_def u_def)

lemma example_payloads_encodable: "encodable scraped_payload" "encodable paged_payload"
  by (simp_all add: scraped_payload_def paged_payload_def utf8_encodable_def u_def)

lemma save_decimal_clock:
  assumes "encodable payload"
  shows "save_json_cache decimal_clock fs r can_write path payload =
           (fs(path \<mapsto> JsonDoc (JObj [(u ''timestamp'', JStr (str_nat (nat r))),
                                        (u ''data'', json_reload payload)])), True)"
proof -
  have "utf8_encodable (u ''timestamp'')" "utf8_encodable (u ''data'')"
    by (simp_all add: utf8_encodable_def u_def)
  with assms show ?thesis
    by (simp add: save_json_cache_def can_write_def decimal_clock_def Let_def
        utf8_encodable_str_nat dict_of_pairs_def)
qed

lemma example_stamps:
  "str_nat 3605000000 = u ''3605000000''"
  "str_nat 12600000000 = u ''12600000000''"
  by (simp_all add: str_nat.simps u_def)

lemma scraped_payload_native: "json_native scraped_payload"
  by (simp add: scraped_payload_def u_def)

lemma paged_payload_reload:
  "json_reload paged_payload =
     JObj [(u ''1'', JStr (u ''a'')), (u ''pages'', JArr [JInt 1, JInt 2])]"
  by (simp add: paged_payload_def dict_of_pairs_def str_nat.simps u_def)

text \<open>
  With the clock one hour ahead of UTC and a TTL of 3600 s: a payload saved at 5 s is
  returned at 65 s, as the entry that holds it, and not at 3700 s; and the other files,
  read at 65 s.
\<close>

theorem json_cache_put_get_witness:
  "load_json_cache decimal_clock 3600
       (fst (save_json_cache decimal_clock Map.empty (datetime_now fixed_zone 5000000) can_write
               cache_path scraped_payload))
       (datetime_now fixed_zone 65000000) cache_path =
     Some (JObj [(u ''timestamp'', JStr (u ''3605000000'')),
                 (u ''data'', json_reload scraped_payload)]) \<and>
   of_json (json_reload scraped_payload) = scraped_payload \<and>
   load_json_cache decimal_clock 3600
       (fst (save_json_cache decimal_clock Map.empty (datetime_now fixed_zone 5000000) can_write
               cache_path scraped_payload))
       (datetime_now fixed_zone 3700000000) cache_path = None \<and>
   fst (save_json_cache decimal_clock Map.empty (datetime_now fixed_zone 5000000) can_write
          cache_path scraped_payload) cache_path \<noteq> None \<and>
   load_json_cache decimal_clock 3600 Map.empty 3665000000 cache_path = None \<and>
   load_json_cache decimal_clock 3600 (one_file (Unreadable (u ''Permission denied'')))
       3665000000 cache_path = None \<and>
   load_json_cache decimal_clock 3600 (one_file (NotJson (u ''Expecting value'')))
       3665000000 cache_path = None \<and>
   load_json_cache decimal_clock 3600 (one_file (JsonDoc JNull)) 3665000000 cache_path = None \<and>
   load_json_cache decimal_clock 3600 (one_file (JsonDoc misdated_entry))
       3665000000 cache_path = None \<and>
   load_json_cache decimal_clock 3600 (one_file (JsonDoc zoned_entry))
       3665000000 cache_path = None \<and>
   load_json_cache decimal_clock 3600 (one_file (JsonDoc numbered_entry))
       3665000000 cache_path = None \<and>
   load_json_cache decimal_clock 3600 (one_file (JsonDoc undated_entry))
       3665000000 cache_path = Some undated_entry"
proof -
  let ?r0 = "datetime_now fixed_zone 5000000"
  let ?fs' = "fst (save_json_cache decimal_clock Map.empty ?r0 can_write cache_path scraped_payload)"
  have r0: "?r0 = 3605000000" by (simp add: datetime_now_def fixed_zone_def)
  have sv: "save_json_cache decimal_clock Map.empty ?r0 can_write cache_path scraped_payload
      = (?fs', True)"
    by (simp add: save_decimal_clock example_payloads_encodable)
  have rt: "fromisoformat decimal_clock (isoformat decimal_clock ?r0) = Inr (Naive ?r0)"
    by (rule decimal_clock_reads_back) (simp add: r0)
  have iso: "isoformat decimal_clock ?r0 = u ''3605000000''"
    by (simp add: r0 decimal_clock_def example_stamps)
  note A = json_cache_put_get[where lib = decimal_clock and fs = Map.empty and tz = fixed_zone
      and ?t0.0 = 5000000 and attempt = can_write and path = cache_path
      and payload = scraped_payload and fs' = ?fs' and ttl = 3600 and ?t1.0 = 65000000
      and now = 3665000000]
  note B = json_cache_put_get[where lib = decimal_clock and fs = Map.empty and tz = fixed_zone
      and ?t0.0 = 5000000 and attempt = can_write and path = cache_path
      and payload = scraped_payload and fs' = ?fs' and ttl = 3600 and ?t1.0 = 3700000000
      and now = 3665000000]
  note C = json_cache_put_get[where lib = decimal_clock and ttl = 3600 and now = 3665000000
      and path = cache_path and fs = "one_file (Unreadable (u ''Permission denied''))"
      and e = "u ''Permission denied''"]
  note D = json_cache_put_get[where lib = decimal_clock and ttl = 3600 and now = 3665000000
      and path = cache_path and fs = "one_file (NotJson (u ''Expecting value''))"
      and e = "u ''Expecting value''"]
  note E = json_cache_put_get[where lib = decimal_clock and ttl = 3600 and now = 3665000000
      and path = cache_path and fs = "one_file (JsonDoc JNull)"]
  note F = json_cache_put_get[where lib = decimal_clock and ttl = 3600 and now = 3665000000
      and path = cache_path and fs = "one_file (JsonDoc misdated_entry)"
      and kvs = "[(u ''timestamp'', JStr (u ''yesterday'')), (u ''data'', json_reload scraped_payload)]"
      and v = "JStr (u ''yesterday'')"]
  note G = json_cache_put_get[where lib = decimal_clock and ttl = 3600 and now = 3665000000
      and path = cache_path and fs = "one_file (JsonDoc zoned_entry)"
      and kvs = "[(u ''timestamp'', JStr (u ''5000000Z'')), (u ''data'', json_reload scraped_payload)]"
      and v = "JStr (u ''5000000Z'')"]
  note H = json_cache_put_get[where lib = decimal_clock and ttl = 3600 and now = 3665000000
      and path = cache_path and fs = "one_file (JsonDoc numbered_entry)"
      and kvs = "[(u ''timestamp'', JInt 5000000), (u ''data'', json_reload scraped_payload)]"
      and v = "JInt 5000000"]
  note I = json_cache_put_get[where lib = decimal_clock and ttl = 3600 and now = 3665000000
      and path = cache_path and fs = "one_file (JsonDoc undated_entry)"
      and kvs = "[(u ''data'', json_reload scraped_payload)]"]
  note A1 = A[THEN conjunct1, rule_format, OF sv rt]
  note B1 = B[THEN conjunct1, rule_format, OF sv rt]
  have 1: "load_json_cache decimal_clock 3600 ?fs' (datetime_now fixed_zone 65000000) cache_path =
     Some (JObj [(u ''timestamp'', JStr (u ''3605000000'')),
                 (u ''data'', json_reload scraped_payload)])"
    using A1[THEN conjunct2, THEN conjunct2, THEN conjunct2, THEN conjunct1]
    by (simp add: iso fixed_zone_def)
  have 2: "of_json (json_reload scraped_payload) = scraped_payload"
    using A1[THEN conjunct2, THEN conjunct2, THEN conjunct2, THEN conjunct2]
      scraped_payload_native by simp
  have 3: "load_json_cache decimal_clock 3600 ?fs' (datetime_now fixed_zone 3700000000) cache_path
      = None"
    using B1[THEN conjunct2, THEN conjunct2, THEN conjunct2, THEN conjunct1]
    by (simp add: fixed_zone_def)
  have 4: "?fs' cache_path \<noteq> None"
    using A1[THEN conjunct1] .
  have 5: "load_json_cache decimal_clock 3600 Map.empty 3665000000 cache_path = None"
    using A by simp
  have 6: "load_json_cache decimal_clock 3600 (one_file (Unreadable (u ''Permission denied'')))
       3665000000 cache_path = None"
    using C by (simp add: one_file_def)
  have 7: "load_json_cache decimal_clock 3600 (one_file (NotJson (u ''Expecting value'')))
       3665000000 cache_path = None"
    using D by (simp add: one_file_def)
  have 8: "load_json_cache decimal_clock 3600 (one_file (JsonDoc JNull)) 3665000000 cache_path
      = None"
    using E by (simp add: one_file_def)
  have 9: "load_json_cache decimal_clock 3600 (one_file (JsonDoc misdated_entry))
       3665000000 cache_path = None"
    using F decimal_clock_yesterday by (simp add: one_file_def misdated_entry_def)
  have 10: "load_json_cache decimal_clock 3600 (one_file (JsonDoc zoned_entry))
       3665000000 cache_path = None"
    using G decimal_clock_zoned by (simp add: one_file_def zoned_entry_def)
  have 11: "load_json_cache decimal_clock 3600 (one_file (JsonDoc numbered_entry))
       3665000000 cache_path = None"
    using H by (simp add: one_file_def numbered_entry_def)
  have 12: "load_json_cache decimal_clock 3600 (one_file (JsonDoc undated_entry))
       3665000000 cache_path = Some undated_entry"
    using I by (simp add: one_file_def undated_entry_def)
  from 1 2 3 4 5 6 7 8 9 10 11 12 show ?thesis by (intro conjI)
qed

text \<open>
  C3 as stated fails, in four ways, each with a TTL of 3600 s. A file that holds the
  object \<open>{"data": ...}\<close> is no cache entry, since it has no timestamp, and
  \<open>load_json_cache\<close> returns it, here long after any TTL. What \<open>load_json_cache\<close> returns
  right after the save is the entry, a dict with the timestamp and the payload, and not
  the payload. A payload with a tuple and an integer key comes back with a list and a
  string key. And the age is a difference of readings of the local clock: where clocks
  are set back by an hour, an entry is returned 5400 s after it was saved, and where
  they are set forward, an entry is not returned 2 s after it was saved.
\<close>

theorem json_cache_put_get_counterexample:
  "load_json_cache decimal_clock 3600 (one_file (JsonDoc undated_entry)) 999999999999 cache_path
     = Some undated_entry \<and>
   load_json_cache decimal_clock 3600
       (fst (save_json_cache decimal_clock Map.empty (datetime_now fixed_zone 5000000) can_write
               cache_path scraped_payload))
       (datetime_now fixed_zone 5000000) cache_path =
     Some (JObj [(u ''timestamp'', JStr (u ''3605000000'')),
                 (u ''data'', json_reload scraped_payload)]) \<and>
   of_json (JObj [(u ''timestamp'', JStr (u ''3605000000'')),
                  (u ''data'', json_reload scraped_payload)]) \<noteq> scraped_payload \<and>
   load_json_cache decimal_clock 3600
       (fst (save_json_cache decimal_clock Map.empty (datetime_now fixed_zone 5000000) can_write
               cache_path paged_payload))
       (datetime_now fixed_zone 5000000) cache_path =
     Some (JObj [(u ''timestamp'', JStr (u ''3605000000'')),
                 (u ''data'', JObj [(u ''1'', JStr (u ''a'')),
                                    (u ''pages'', JArr [JInt 1, JInt 2])])]) \<and>
   of_json (JObj [(u ''1'', JStr (u ''a'')), (u ''pages'', JArr [JInt 1, JInt 2])])
     \<noteq> paged_payload \<and>
   load_json_cache decimal_clock 3600
       (fst (save_json_cache decimal_clock Map.empty (datetime_now autumn_zone 5400000000)
               can_write cache_path scraped_payload))
       (datetime_now autumn_zone (5400000000 + 5400000000)) cache_path =
     Some (JObj [(u ''timestamp'', JStr (u ''12600000000'')),
                 (u ''data'', json_reload scraped_payload)]) \<and>
   load_json_cache decimal_clock 3600
       (fst (save_json_cache decimal_clock Map.empty (datetime_now spring_zone 7199000000)
               can_write cache_path scraped_payload))
       (datetime_now spring_zone (7199000000 + 2000000)) cache_path = None"
proof -
  have 1: "load_json_cache decimal_clock 3600 (one_file (JsonDoc undated_entry)) 999999999999
      cache_path = Some undated_entry"
    by (simp add: undated_entry_def load_json_cache_def one_file_def cache_expired_def)
  have r: "datetime_now fixed_zone 5000000 = 3605000000"
    "datetime_now autumn_zone 5400000000 = 12600000000"
    "datetime_now autumn_zone (5400000000 + 5400000000) = 14400000000"
    "datetime_now spring_zone 7199000000 = 10799000000"
    "datetime_now spring_zone (7199000000 + 2000000) = 14401000000"
    by (simp_all add: datetime_now_def fixed_zone_def autumn_zone_def spring_zone_def)
  have load: "load_json_cache decimal_clock 3600
       (fst (save_json_cache decimal_clock Map.empty r0 can_write cache_path payload)) r1 cache_path =
     (if r1 - r0 \<le> 3600 * 1000000
      then Some (JObj [(u ''timestamp'', JStr (str_nat (nat r0))), (u ''data'', json_reload payload)])
      else None)"
    if "encodable payload" "0 \<le> r0" "\<bar>r1 - r0\<bar> < 2 ^ 60" for payload r0 r1
  proof -
    have "save_json_cache decimal_clock Map.empty r0 can_write cache_path payload =
        (fst (save_json_cache decimal_clock Map.empty r0 can_write cache_path payload), True)"
      by (simp add: save_decimal_clock that(1))
    from load_after_save_bounded[OF this decimal_clock_reads_back[OF that(2)], of 3600 r1] that(3)
    show ?thesis by (simp add: decimal_clock_def)
  qed
  have 2: "load_json_cache decimal_clock 3600
       (fst (save_json_cache decimal_clock Map.empty (datetime_now fixed_zone 5000000) can_write
               cache_path scraped_payload))
       (datetime_now fixed_zone 5000000) cache_path =
     Some (JObj [(u ''timestamp'', JStr (u ''3605000000'')),
                 (u ''data'', json_reload scraped_payload)])"
    unfolding r by (simp add: load example_payloads_encodable example_stamps)
  have 3: "of_json (JObj [(u ''timestamp'', JStr (u ''3605000000'')),
                  (u ''data'', json_reload scraped_payload)]) \<noteq> scraped_payload"
    by (simp add: scraped_payload_def u_def)
  have 4: "load_json_cache decimal_clock 3600
       (fst (save_json_cache decimal_clock Map.empty (datetime_now fixed_zone 5000000) can_write
               cache_path paged_payload))
       (datetime_now fixed_zone 5000000) cache_path =
     Some (JObj [(u ''timestamp'', JStr (u ''3605000000'')),
                 (u ''data'', JObj [(u ''1'', JStr (u ''a'')),
                                    (u ''pages'', JArr [JInt 1, JInt 2])])])"
    unfolding r by (simp add: load example_payloads_encodable example_stamps paged_payload_reload)
  have 5: "of_json (JObj [(u ''1'', JStr (u ''a'')), (u ''pages'', JArr [JInt 1, JInt 2])])
     \<noteq> paged_payload"
    by (simp add: paged_payload_def)
  have 6: "load_json_cache decimal_clock 3600
       (fst (save_json_cache decimal_clock Map.empty (datetime_now autumn_zone 5400000000)
               can_write cache_path scraped_payload))
       (datetime_now autumn_zone (5400000000 + 5400000000)) cache_path =
     Some (JObj [(u ''timestamp'', JStr (u ''12600000000'')),
                 (u ''data'', json_reload scraped_payload)])"
    unfolding r by (simp add: load example_payloads_encodable example_stamps)
  have 7: "load_json_cache decimal_clock 3600
       (fst (save_json_cache decimal_clock Map.empty (datetime_now spring_zone 7199000000)
               can_write cache_path scraped_payload))
       (datetime_now spring_zone (7199000000 + 2000000)) cache_path = None"
    unfolding r by (simp add: load example_payloads_encodable)
  from 1 2 3 4 5 6 7 show ?thesis by (intro conjI)
qed

section \<open>Properties of the request handlers\<close>

lemma local_header_nonempty: "local_header \<noteq> []"
  by (simp add: local_header_def)

lemma merge_data_nonempty: "merge_data local web \<noteq> []"
  using merge_data_prefix[of local web] local_header_nonempty by auto

lemma load_global_context_fresh:
  assumes "global_context_cache st = None"
  shows "load_global_context env st =
           (st\<lparr>global_context_cache := Some (result_context (get_complete_context env True True))\<rparr>,
            result_context (get_complete_context env True True))"
    and "result_context (get_complete_context env True True) \<noteq> []"
proof -
  show ne: "result_context (get_complete_context env True True) \<noteq> []"
    by (simp add: get_complete_context_def Let_def merge_data_nonempty)
  then show "load_global_context env st =
           (st\<lparr>global_context_cache := Some (result_context (get_complete_context env True True))\<rparr>,
            result_context (get_complete_context env True True))"
    using assms by (simp add: load_global_context_def Let_def)
qed

lemma load_global_context_available:
  assumes "context_available st"
  shows "context_available (fst (load_global_context env st))"
    and "snd (load_global_context env st) \<noteq> []"
    and "compressed_context_cache (fst (load_global_context env st)) = compressed_context_cache st"
proof -
  show "context_available (fst (load_global_context env st))"
    using assms load_global_context_fresh[of st env]
    by (cases "global_context_cache st") (simp_all add: context_available_def load_global_context_def)
  show "snd (load_global_context env st) \<noteq> []"
    using assms load_global_context_fresh[of st env]
    by (cases "global_context_cache st") (simp_all add: context_available_def load_global_context_def)
  show "compressed_context_cache (fst (load_global_context env st)) = compressed_context_cache st"
    using load_global_context_fresh[of st env]
    by (cases "global_context_cache st") (simp_all add: load_global_context_def)
qed

lemma compress_or_reuse_context:
  "global_context_cache (fst (compress_or_reuse env c m st)) = global_context_cache st"
  by (simp add: compress_or_reuse_def Let_def split: option.splits)

lemma compress_or_reuse_cache:
  "cache_reports_success st \<Longrightarrow> cache_reports_success (fst (compress_or_reuse env c m st))"
  by (simp add: compress_or_reuse_def cache_reports_success_def Let_def split: option.splits)

lemma compress_or_reuse_failed:
  assumes "compressed_context_cache st = None"
    and "\<not> py_truthy (successful (compress_context env c m))"
  shows "compress_or_reuse env c m st = (st, compress_context env c m)"
  using assms by (simp add: compress_or_reuse_def Let_def)

lemma compress_or_reuse_attempt:
  assumes "compressed_context_cache st = None"
  shows "snd (compress_or_reuse env c m st) = compress_context env c m"
  using assms by (simp add: compress_or_reuse_def Let_def)

lemma answer_state:
  "fst (answer env m h st) =
     (if snd (load_global_context env st) = [] then fst (load_global_context env st)
      else fst (compress_or_reuse env (snd (load_global_context env st)) m
                  (fst (load_global_context env st))))"
  by (simp add: answer_def Let_def split: prod.splits sum.splits)

lemma answer_reply:
  "snd (load_global_context env st) \<noteq> [] \<Longrightarrow> snd (answer env m h st) \<noteq> no_context_reply"
  by (auto simp add: answer_def Let_def no_context_reply_def split: prod.splits sum.splits)

lemma chat_cases:
  "chat env rq st = (st, snd (chat env rq st)) \<and> snd (chat env rq st) \<noteq> no_context_reply \<or>
   (\<exists>m h. chat env rq st = answer env m h st)"
  by (auto simp add: chat_def Let_def no_context_reply_def internal_error_reply_def
      split: sum.splits json.splits)

lemma chat_context_available:
  assumes "context_available st"
  shows "context_available (fst (chat env rq st))" and "snd (chat env rq st) \<noteq> no_context_reply"
proof -
  note l = load_global_context_available[OF assms, of env]
  have a: "context_available (fst (answer env m h st))" for m h
    using l by (simp add: answer_state context_available_def compress_or_reuse_context)
  have b: "snd (answer env m h st) \<noteq> no_context_reply" for m h
    using l(2) by (rule answer_reply)
  from chat_cases[of env rq st]
  show "context_available (fst (chat env rq st))"
  proof
    assume "chat env rq st = (st, snd (chat env rq st)) \<and> snd (chat env rq st) \<noteq> no_context_reply"
    then have "fst (chat env rq st) = st" by (metis fst_conv)
    with assms show ?thesis by simp
  next
    assume "\<exists>m h. chat env rq st = answer env m h st"
    with a show ?thesis by auto
  qed
  from chat_cases[of env rq st]
  show "snd (chat env rq st) \<noteq> no_context_reply"
  proof
    assume "chat env rq st = (st, snd (chat env rq st)) \<and> snd (chat env rq st) \<noteq> no_context_reply"
    then show ?thesis by simp
  next
    assume "\<exists>m h. chat env rq st = answer env m h st"
    with b show ?thesis by auto
  qed
qed

lemma reload_context_state:
  "fst (reload_context env st) =
     \<lparr>global_context_cache = Some (result_context (get_complete_context env True True)),
      compressed_context_cache = None\<rparr>"
  using load_global_context_fresh(1)[of
      "st\<lparr>global_context_cache := None, compressed_context_cache := None\<rparr>" env]
  by (simp add: reload_context_def Let_def)

lemma reload_context_available: "context_available (fst (reload_context env st))"
  using load_global_context_fresh(2)[of
      "st\<lparr>global_context_cache := None, compressed_context_cache := None\<rparr>" env]
  by (simp add: reload_context_state context_available_def)

lemma reload_cache_reports_success: "cache_reports_success (fst (reload_context env st))"
  by (simp add: reload_context_state cache_reports_success_def)

lemma load_global_context_compressed:
  "compressed_context_cache (fst (load_global_context env st)) = compressed_context_cache st"
  by (simp add: load_global_context_def Let_def split: option.splits)

text \<open>
  The compression cache is written in one place, under the test of the \<open>successful\<close>
  field, and emptied by \<open>reload_context\<close>: a cache that holds nothing or a result that
  reports success stays so over every request, a result that does not report success is
  not kept, and a request that finds the cache empty calls the compressor.
\<close>

lemma chat_cache_reports_success:
  assumes "cache_reports_success st"
  shows "cache_reports_success (fst (chat env rq st))"
proof -
  have l: "cache_reports_success (fst (load_global_context env st))"
    using assms by (simp add: cache_reports_success_def load_global_context_compressed)
  have a: "cache_reports_success (fst (answer env m h st))" for m h
    using l by (simp add: answer_state compress_or_reuse_cache)
  from chat_cases[of env rq st] show ?thesis
  proof
    assume "chat env rq st = (st, snd (chat env rq st)) \<and> snd (chat env rq st) \<noteq> no_context_reply"
    then have "fst (chat env rq st) = st" by (metis fst_conv)
    with assms show ?thesis by simp
  next
    assume "\<exists>m h. chat env rq st = answer env m h st"
    with a show ?thesis by auto
  qed
qed

text \<open>
  C8. The merged context is never empty: it begins with the header of the local
  section. So the context that \<open>get_complete_context\<close> returns and the context that a
  first \<open>load_global_context\<close> returns and caches are not empty; a context cache that
  does not hold the empty string stays so over \<open>chat\<close> and \<open>reload_context\<close>, and \<open>chat\<close>
  does not answer with the no-context error.
\<close>

theorem merge_data_never_empty:
  "merge_data local web \<noteq> [] \<and>
   prefix local_header (merge_data local web) \<and>
   result_context (get_complete_context env use_web_scraping use_cache) \<noteq> [] \<and>
   (global_context_cache st = None \<longrightarrow> snd (load_global_context env st) \<noteq> []) \<and>
   (context_available st \<longrightarrow>
      context_available (fst (chat env rq st)) \<and> snd (chat env rq st) \<noteq> no_context_reply) \<and>
   context_available (fst (reload_context env st))"
proof (intro conjI impI)
  show "merge_data local web \<noteq> []" by (rule merge_data_nonempty)
  show "prefix local_header (merge_data local web)"
    using merge_data_prefix[of local web] by (auto simp: prefix_def)
  show "result_context (get_complete_context env use_web_scraping use_cache) \<noteq> []"
    by (simp add: get_complete_context_def Let_def merge_data_nonempty)
  show "snd (load_global_context env st) \<noteq> []" if "global_context_cache st = None"
    using load_global_context_fresh[OF that, of env] by simp
  show "context_available (fst (chat env rq st))" if "context_available st"
    using that by (rule chat_context_available)
  show "snd (chat env rq st) \<noteq> no_context_reply" if "context_available st"
    using that by (rule chat_context_available)
  show "context_available (fst (reload_context env st))" by (rule reload_context_available)
qed

text \<open>
  With an empty data directory and scraping switched off, the context of the first
  request is the local header alone, and the request is not refused for lack of context.
\<close>

theorem merge_data_never_empty_witness:
  "context_available start_state \<and>
   snd (load_global_context example_env start_state) = local_header \<and>
   snd (load_global_context example_env start_state) \<noteq> [] \<and>
   context_available (fst (chat example_env deadline_request start_state)) \<and>
   snd (chat example_env deadline_request start_state) \<noteq> no_context_reply"
proof -
  have h1: "global_context_cache start_state = None" by (simp add: start_state_def)
  have h2: "context_available start_state" by (simp add: context_available_def start_state_def)
  have "result_context (get_complete_context example_env True True) = local_header"
    by (simp add: get_complete_context_def example_env_def load_local_data_def merge_data_def
        Let_def)
  then have e: "snd (load_global_context example_env start_state) = local_header"
    using load_global_context_fresh(1)[OF h1, of example_env] by simp
  note m = merge_data_never_empty[of _ _ example_env _ _ start_state deadline_request]
  from m h1 have "snd (load_global_context example_env start_state) \<noteq> []" by blast
  moreover from m h2 have "context_available (fst (chat example_env deadline_request start_state))"
    "snd (chat example_env deadline_request start_state) \<noteq> no_context_reply" by blast+
  ultimately show ?thesis using h2 e by (intro conjI)
qed

lemma strip_q: "strip (u ''q'') = u ''q''"
  by (simp add: strip_def u_def isspace_def)

text \<open>
  C9. No fallback result is claimed ever to be stored in the compression cache. When the
  service reports success in a body whose original token count is \<open>null\<close>, \<open>compress\<close>
  returns the fallback prompt and an error with \<open>successful\<close> still true, and \<open>chat\<close>
  stores that result: the cache then holds the uncompressed fallback prompt, which later
  requests reuse instead of compressing again.
\<close>

theorem chat_caches_fallback_result:
  "compressed_context_cache (fst (chat example_env deadline_request loaded_state)) =
     Some \<lparr>compressed_prompt = JStr (u ''ctx'' @ u ''\<newline>\<newline>User Query: '' @ u ''q''),
           original_tokens = JNull, compressed_tokens = JInt 0, compression_ratio = 1,
           successful = JBool True,
           error = Some (u ''Unexpected error in Scaledown compression: '' @
                    [39, 62, 39] @ u '' not supported between instances of '' @
                    [39] @ u ''NoneType'' @ [39] @ u '' and '' @ [39] @ u ''int'' @ [39]),
           latency_ms = JInt 0\<rparr>"
proof -
  have c: "compress_context example_env (u ''ctx'') (u ''q'') =
     \<lparr>compressed_prompt = JStr (u ''ctx'' @ u ''\<newline>\<newline>User Query: '' @ u ''q''),
           original_tokens = JNull, compressed_tokens = JInt 0, compression_ratio = 1,
           successful = JBool True,
           error = Some (u ''Unexpected error in Scaledown compression: '' @
                    [39, 62, 39] @ u '' not supported between instances of '' @
                    [39] @ u ''NoneType'' @ [39] @ u '' and '' @ [39] @ u ''int'' @ [39]),
           latency_ms = JInt 0\<rparr>"
    by (simp add: compress_context_def example_env_def compress_def example_compressor_def
        ill_typed_body_def try_body_def ratio_step_def initial_result_def fallback_prompt_def)
  have l: "load_global_context example_env loaded_state = (loaded_state, u ''ctx'')"
    by (simp add: load_global_context_def loaded_state_def)
  have "chat example_env deadline_request loaded_state =
        answer example_env (u ''q'') (JArr []) loaded_state"
    by (simp add: chat_def deadline_request_def Let_def strip_q)
  moreover have "compressed_context_cache loaded_state = None"
    by (simp add: loaded_state_def)
  then have "fst (compress_or_reuse example_env (u ''ctx'') (u ''q'') loaded_state) =
      loaded_state\<lparr>compressed_context_cache :=
        Some (compress_context example_env (u ''ctx'') (u ''q''))\<rparr>"
    by (simp add: compress_or_reuse_def Let_def c)
  ultimately show ?thesis
    by (simp add: answer_state l c)
qed

end
